theory Spec2Isabelle
  imports Complex_Main "HOL-Library.Log_Nat" "HOL-Library.Char_ord" "HOL-Library.List_Lexorder"
begin

section \<open>The coin ledger of app.py\<close>

text \<open>
  The program is a Flask application over two SQLite tables, \<^verbatim>\<open>users\<close> and
  \<^verbatim>\<open>pending_redemptions\<close>, and one CSV log file. Every route handler is modelled as a
  function from the store to the new store and the response. The handlers are modelled
  one request at a time (each runs to completion before the next starts).

  Conventions of the model:
  \<^item> a JSON field that is absent or \<^verbatim>\<open>null\<close> is \<open>None\<close>; a user id is a string;
  \<^item> \<^verbatim>\<open>int(data.get(...))\<close> and \<^verbatim>\<open>float(data.get(...))\<close> have already been applied:
    the handlers take the resulting Python \<^verbatim>\<open>int\<close> and \<^verbatim>\<open>float\<close>;
  \<^item> the \<^verbatim>\<open>id\<close> of a \<^verbatim>\<open>mark_paid\<close> request is a JSON integer of any size, or absent;
  \<^item> an INTEGER column holds a mathematical integer (exact while the counters stay
    inside SQLite's 64-bit range);
  \<^item> each reading of the clock (\<^verbatim>\<open>datetime.utcnow()\<close> after \<^verbatim>\<open>strftime\<close>) is an
    argument of the handler;
  \<^item> an uncaught Python exception is an error value, like the HTTP error responses.
\<close>

subsection \<open>Python floats\<close>

text \<open>
  A Python \<^verbatim>\<open>float\<close> is an IEEE 754 binary64 number: a finite value (a rational, here),
  an infinity or a NaN. The sign of zero is not observable in this program.
\<close>

datatype pyfloat = Finite rat | PosInf | NegInf | NaN

text \<open>
  Rounding a rational to the nearest binary64 value, ties to even: \<open>floor_log2 a\<close> is
  the exponent \<open>e\<close> with \<open>2 powi e \<le> a < 2 powi (e + 1)\<close>, the unit in the last place
  is \<open>2 powi p\<close> with \<open>p = e - 52\<close> (not below the subnormal \<open>- 1074\<close>), and a result
  of \<open>2 powi 1024\<close> or more overflows to an infinity.
\<close>

definition floor_log2 :: "rat \<Rightarrow> int" where
  "floor_log2 a =
     (if 1 \<le> a then int (floorlog 2 (nat \<lfloor>a\<rfloor>)) - 1
      else - int (floorlog 2 (nat (\<lceil>1 / a\<rceil> - 1))))"

definition round_half_even :: "rat \<Rightarrow> int" where
  "round_half_even x =
     (let f = \<lfloor>x\<rfloor>; r = x - of_int f
      in if r < 1 / 2 then f else if 1 / 2 < r then f + 1
         else if even f then f else f + 1)"

definition round_double :: "rat \<Rightarrow> pyfloat" where
  "round_double q =
     (if q = 0 then Finite 0
      else let a = \<bar>q\<bar>;
               p = max (floor_log2 a - 52) (- 1074);
               v = of_int (round_half_even (a / 2 powi p)) * 2 powi p
           in if 2 powi 1024 \<le> v then (if 0 < q then PosInf else NegInf)
              else Finite (if 0 < q then v else - v))"

text \<open>
  \<^verbatim>\<open>x * n\<close> for a float \<open>x\<close> and an int \<open>n\<close> that is exactly a float (as 1000000
  is): the exact product, rounded.
\<close>

definition float_mul_int :: "pyfloat \<Rightarrow> int \<Rightarrow> pyfloat" where
  "float_mul_int x n =
     (case x of
        Finite a \<Rightarrow> round_double (a * of_int n)
      | PosInf \<Rightarrow> (if 0 < n then PosInf else if n < 0 then NegInf else NaN)
      | NegInf \<Rightarrow> (if 0 < n then NegInf else if n < 0 then PosInf else NaN)
      | NaN \<Rightarrow> NaN)"

text \<open>\<^verbatim>\<open>x <= n\<close> and \<^verbatim>\<open>x > n\<close> for a float \<open>x\<close> and an int \<open>n\<close>; both are false of a NaN.\<close>

definition float_le_int :: "pyfloat \<Rightarrow> int \<Rightarrow> bool" where
  "float_le_int x n =
     (case x of Finite a \<Rightarrow> a \<le> of_int n | PosInf \<Rightarrow> False | NegInf \<Rightarrow> True | NaN \<Rightarrow> False)"

definition float_gt_int :: "pyfloat \<Rightarrow> int \<Rightarrow> bool" where
  "float_gt_int x n =
     (case x of Finite a \<Rightarrow> of_int n < a | PosInf \<Rightarrow> True | NegInf \<Rightarrow> False | NaN \<Rightarrow> False)"

subsection \<open>Tables\<close>

text \<open>Table \<^verbatim>\<open>users\<close> (lines 23-28); \<^verbatim>\<open>user_id\<close> is \<open>None\<close> for SQL NULL.\<close>

record user_row =
  user_id :: "string option"
  monthly_coin_earned :: int
  monthly_coin_redeemed :: int
  last_reset :: string

text \<open>Table \<^verbatim>\<open>pending_redemptions\<close> (lines 31-38). The field \<^verbatim>\<open>id\<close> is \<open>r_id\<close>
  and \<^verbatim>\<open>user_id\<close> is \<open>r_user_id\<close> here.\<close>

record redemption =
  r_id :: int
  r_user_id :: "string option"
  coins_redeemed :: int
  usd_value :: pyfloat
  requested_at :: string
  status :: string

text \<open>One row of the CSV log written by \<^verbatim>\<open>log_redemption_csv\<close> (line 45).\<close>

record log_row =
  log_timestamp :: string
  log_user_id :: "string option"
  log_usd_value :: string
  log_coins_redeemed :: int
  log_status :: string

text \<open>
  The store: both tables in row order, the AUTOINCREMENT counter of
  \<^verbatim>\<open>pending_redemptions\<close>, and the CSV log file (\<open>None\<close> while the file does not
  exist; the header line is written when it is created).
\<close>

record store =
  users :: "user_row list"
  pending_redemptions :: "redemption list"
  sqlite_sequence :: int
  csv_log :: "log_row list option"

definition init_db :: store where
  "init_db = \<lparr>users = [], pending_redemptions = [], sqlite_sequence = 0, csv_log = None\<rparr>"

definition MAX_MONTHLY_COINS :: int where
  "MAX_MONTHLY_COINS = 50000000"

definition COINS_PER_DOLLAR :: int where
  "COINS_PER_DOLLAR = 1000000"

subsection \<open>Responses\<close>

text \<open>
  The error responses, named after their messages: \<open>Invalid_request\<close>,
  \<open>Invalid_amount\<close>, \<open>Missing_redemption_ID\<close> and \<open>Missing_user_id\<close> are the HTTP 400
  answers, \<open>Monthly_redeem_cap_exceeded\<close>, \<open>Insufficient_coins\<close> and \<open>Forbidden\<close> the
  HTTP 403 answers; \<open>OverflowError\<close>, \<open>ValueError\<close> and \<open>ZeroDivisionError\<close> are
  uncaught exceptions (HTTP 500).
\<close>

datatype error =
    Invalid_request
  | Invalid_amount
  | Missing_redemption_ID
  | Missing_user_id
  | Monthly_redeem_cap_exceeded
  | Insufficient_coins
  | Forbidden
  | OverflowError
  | ValueError
  | ZeroDivisionError

fun http_status :: "error \<Rightarrow> nat" where
  "http_status Invalid_request = 400"
| "http_status Invalid_amount = 400"
| "http_status Missing_redemption_ID = 400"
| "http_status Missing_user_id = 400"
| "http_status Monthly_redeem_cap_exceeded = 403"
| "http_status Insufficient_coins = 403"
| "http_status Forbidden = 403"
| "http_status OverflowError = 500"
| "http_status ValueError = 500"
| "http_status ZeroDivisionError = 500"

subsection \<open>SQL and Python primitives\<close>

text \<open>\<^verbatim>\<open>WHERE user_id = ?\<close>: a comparison with NULL on either side is never true.\<close>

fun sql_eq :: "string option \<Rightarrow> string option \<Rightarrow> bool" where
  "sql_eq (Some a) (Some b) = (a = b)"
| "sql_eq _ _ = False"

text \<open>\<^verbatim>\<open>not user_id\<close>: true of \<^verbatim>\<open>None\<close> and of the empty string.\<close>

fun py_not :: "string option \<Rightarrow> bool" where
  "py_not None = True"
| "py_not (Some u) = (u = [])"

text \<open>\<^verbatim>\<open>not redemption_id\<close>: true of \<^verbatim>\<open>None\<close> and of 0.\<close>

fun py_not_int :: "int option \<Rightarrow> bool" where
  "py_not_int None = True"
| "py_not_int (Some i) = (i = 0)"

text \<open>The values of an SQLite INTEGER: the signed 64-bit integers.\<close>

definition sqlite_integer :: "int \<Rightarrow> bool" where
  "sqlite_integer i = (- (2 ^ 63) \<le> i \<and> i < 2 ^ 63)"

text \<open>
  \<^verbatim>\<open>int(x)\<close> for a float: truncation towards zero; an infinity raises
  \<^verbatim>\<open>OverflowError\<close>, a NaN raises \<^verbatim>\<open>ValueError\<close>.
\<close>

definition py_int :: "pyfloat \<Rightarrow> error + int" where
  "py_int x =
     (case x of
        Finite a \<Rightarrow> Inr (if 0 \<le> a then \<lfloor>a\<rfloor> else \<lceil>a\<rceil>)
      | PosInf \<Rightarrow> Inl OverflowError
      | NegInf \<Rightarrow> Inl OverflowError
      | NaN \<Rightarrow> Inl ValueError)"

text \<open>
  \<^verbatim>\<open>n / d\<close> for two ints: the exact quotient, rounded; a quotient too large for a
  float raises \<^verbatim>\<open>OverflowError\<close>.
\<close>

definition py_truediv :: "int \<Rightarrow> int \<Rightarrow> error + pyfloat" where
  "py_truediv n d =
     (if d = 0 then Inl ZeroDivisionError
      else case round_double (of_int n / of_int d) of
             Finite v \<Rightarrow> Inr (Finite v)
           | _ \<Rightarrow> Inl OverflowError)"

text \<open>\<^verbatim>\<open>str(n)\<close> for an int: decimal digits, with a minus sign when negative.\<close>

definition digit_char :: "nat \<Rightarrow> char" where
  "digit_char d = ''0123456789'' ! d"

function str_nat :: "nat \<Rightarrow> string" where
  "str_nat n = (if n < 10 then [digit_char n] else str_nat (n div 10) @ [digit_char (n mod 10)])"
  by pat_completeness auto
termination
  by (relation "measure id") auto

declare str_nat.simps [simp del]

definition str_int :: "int \<Rightarrow> string" where
  "str_int i = (if i < 0 then ''-'' @ str_nat (nat (- i)) else str_nat (nat i))"

text \<open>
  \<^verbatim>\<open>f"{x:.2f}"\<close>: the exact value of the float rounded to two decimals, ties to
  even.
\<close>

definition format_2f :: "pyfloat \<Rightarrow> string" where
  "format_2f x =
     (case x of
        Finite v \<Rightarrow>
          (let n = nat (round_half_even (\<bar>v\<bar> * 100))
           in (if v < 0 then ''-'' else []) @ str_nat (n div 100) @ ''.'' @
              [digit_char (n mod 100 div 10), digit_char (n mod 10)])
      | PosInf \<Rightarrow> ''inf''
      | NegInf \<Rightarrow> ''-inf''
      | NaN \<Rightarrow> ''nan'')"

subsection \<open>Accounts\<close>

text \<open>
  \<^verbatim>\<open>get_or_create_user\<close> (lines 56-71). The INSERT runs only when the SELECT found no
  row, so the PRIMARY KEY is never violated by it; a NULL \<^verbatim>\<open>user_id\<close> is never found
  by the SELECT, and SQLite admits any number of rows with a NULL key.
\<close>

definition get_or_create_user :: "store \<Rightarrow> string option \<Rightarrow> string \<Rightarrow> store \<times> user_row" where
  "get_or_create_user s uid today =
     (case find (\<lambda>r. sql_eq (user_id r) uid) (users s) of
        None \<Rightarrow>
          (let row = \<lparr>user_id = uid, monthly_coin_earned = 0, monthly_coin_redeemed = 0,
                      last_reset = today\<rparr>
           in (s\<lparr>users := users s @ [row]\<rparr>, row))
      | Some user \<Rightarrow> (s, user))"

text \<open>\<^verbatim>\<open>UPDATE users SET monthly_coin_earned = monthly_coin_earned + ?
  WHERE user_id = ?\<close> (line 89), on one row.\<close>

definition add_earned :: "int \<Rightarrow> string option \<Rightarrow> user_row \<Rightarrow> user_row" where
  "add_earned coins uid r =
     (if sql_eq (user_id r) uid
      then r\<lparr>monthly_coin_earned := monthly_coin_earned r + coins\<rparr> else r)"

text \<open>\<^verbatim>\<open>UPDATE users SET monthly_coin_redeemed = monthly_coin_redeemed + ?
  WHERE user_id = ?\<close> (lines 109 and 139), on one row.\<close>

definition add_redeemed :: "int \<Rightarrow> string option \<Rightarrow> user_row \<Rightarrow> user_row" where
  "add_redeemed coins uid r =
     (if sql_eq (user_id r) uid
      then r\<lparr>monthly_coin_redeemed := monthly_coin_redeemed r + coins\<rparr> else r)"

text \<open>\<^verbatim>\<open>coin_earn\<close> (lines 78-92); the success payload is \<^verbatim>\<open>earned\<close>.\<close>

definition coin_earn :: "store \<Rightarrow> string option \<Rightarrow> int \<Rightarrow> string \<Rightarrow> store \<times> (error + int)" where
  "coin_earn s uid coins today =
     (if py_not uid \<or> coins \<le> 0 then (s, Inl Invalid_request)
      else let (s1, user) = get_or_create_user s uid today
           in (s1\<lparr>users := map (add_earned coins uid) (users s1)\<rparr>, Inr coins))"

text \<open>\<^verbatim>\<open>coin_redeem\<close> (lines 94-113); the success payload is \<^verbatim>\<open>credited\<close>.\<close>

definition coin_redeem :: "store \<Rightarrow> string option \<Rightarrow> int \<Rightarrow> string \<Rightarrow> store \<times> (error + string)" where
  "coin_redeem s uid requested_coins today =
     (if py_not uid \<or> requested_coins \<le> 0 then (s, Inl Invalid_request)
      else let (s1, user) = get_or_create_user s uid today
           in if monthly_coin_redeemed user + requested_coins > MAX_MONTHLY_COINS
              then (s1, Inl Monthly_redeem_cap_exceeded)
              else let s2 = s1\<lparr>users := map (add_redeemed requested_coins uid) (users s1)\<rparr>
                   in case py_truediv requested_coins 1000000 of
                        Inl e \<Rightarrow> (s2, Inl e)
                      | Inr credited_dollars \<Rightarrow> (s2, Inr (''$'' @ format_2f credited_dollars)))"

text \<open>\<^verbatim>\<open>log_redemption_csv\<close> (lines 43-51), with its default status.\<close>

definition log_redemption_csv :: "store \<Rightarrow> string option \<Rightarrow> pyfloat \<Rightarrow> int \<Rightarrow> string \<Rightarrow> store" where
  "log_redemption_csv s uid usd coins timestamp =
     s\<lparr>csv_log := Some ((case csv_log s of None \<Rightarrow> [] | Some rows \<Rightarrow> rows) @
          [\<lparr>log_timestamp = timestamp, log_user_id = uid, log_usd_value = format_2f usd,
            log_coins_redeemed = coins, log_status = ''pending''\<rparr>])\<rparr>"

text \<open>
  \<^verbatim>\<open>coin_exchange\<close> (lines 116-148). \<open>coins_required\<close> is computed (line 123) before
  the amount is checked (line 125). The three clock readings are those of lines 62, 136
  and 44. The success payload is \<^verbatim>\<open>usd_requested\<close>.
\<close>

definition coin_exchange ::
  "store \<Rightarrow> string option \<Rightarrow> pyfloat \<Rightarrow> string \<Rightarrow> string \<Rightarrow> string \<Rightarrow> store \<times> (error + string)" where
  "coin_exchange s uid usd_requested today now timestamp =
     (case py_int (float_mul_int usd_requested COINS_PER_DOLLAR) of
        Inl e \<Rightarrow> (s, Inl e)
      | Inr coins_required \<Rightarrow>
          if float_le_int usd_requested 0 \<or> float_gt_int usd_requested 100
          then (s, Inl Invalid_amount)
          else let (s1, user) = get_or_create_user s uid today;
                   available = monthly_coin_earned user - monthly_coin_redeemed user
               in if coins_required > available then (s1, Inl Insufficient_coins)
                  else if monthly_coin_redeemed user + coins_required > MAX_MONTHLY_COINS
                  then (s1, Inl Monthly_redeem_cap_exceeded)
                  else let s2 = s1\<lparr>users := map (add_redeemed coins_required uid) (users s1),
                                    pending_redemptions := pending_redemptions s1 @
                                      [\<lparr>r_id = sqlite_sequence s1 + 1, r_user_id = uid,
                                        coins_redeemed = coins_required,
                                        usd_value = usd_requested, requested_at = now,
                                        status = ''pending''\<rparr>],
                                    sqlite_sequence := sqlite_sequence s1 + 1\<rparr>
                       in (log_redemption_csv s2 uid usd_requested coins_required timestamp,
                           Inr (''$'' @ format_2f usd_requested)))"

text \<open>\<^verbatim>\<open>reset_monthly\<close> (lines 246-255): the UPDATE has no WHERE clause.\<close>

definition reset_monthly :: "store \<Rightarrow> string \<Rightarrow> store \<times> (error + unit)" where
  "reset_monthly s today =
     (s\<lparr>users := map (\<lambda>r. r\<lparr>monthly_coin_earned := 0, monthly_coin_redeemed := 0,
                              last_reset := today\<rparr>) (users s)\<rparr>, Inr ())"

text \<open>
  \<^verbatim>\<open>coin_status\<close> (lines 226-241); the payload is the user id, earned, redeemed,
  remaining and the dollar value redeemed.
\<close>

definition coin_status ::
  "store \<Rightarrow> string option \<Rightarrow> string \<Rightarrow> store \<times> (error + string option \<times> int \<times> int \<times> int \<times> string)" where
  "coin_status s uid today =
     (if py_not uid then (s, Inl Missing_user_id)
      else let (s1, user) = get_or_create_user s uid today;
               remaining = max 0 (MAX_MONTHLY_COINS - monthly_coin_redeemed user)
           in case py_truediv (monthly_coin_redeemed user) 1000000 of
                Inl e \<Rightarrow> (s1, Inl e)
              | Inr d \<Rightarrow> (s1, Inr (user_id user, monthly_coin_earned user,
                              monthly_coin_redeemed user, remaining, ''$'' @ format_2f d)))"

subsection \<open>Redemption lifecycle\<close>

text \<open>\<^verbatim>\<open>UPDATE pending_redemptions SET status = 'paid' WHERE id = ?\<close> (line 184).\<close>

definition set_paid :: "int \<Rightarrow> redemption \<Rightarrow> redemption" where
  "set_paid i r = (if r_id r = i then r\<lparr>status := ''paid''\<rparr> else r)"

text \<open>
  \<^verbatim>\<open>mark_redeem_paid\<close> (lines 174-187), for a request whose \<^verbatim>\<open>id\<close> is a JSON integer
  or is missing. The id is bound as it came (line 184), and \<^verbatim>\<open>sqlite3\<close> raises
  \<^verbatim>\<open>OverflowError\<close> for an int that does not fit an SQLite INTEGER, before the UPDATE
  runs. The success payload is the id.
\<close>

definition mark_redeem_paid :: "store \<Rightarrow> int option \<Rightarrow> store \<times> (error + int)" where
  "mark_redeem_paid s redemption_id =
     (if py_not_int redemption_id then (s, Inl Missing_redemption_ID)
      else if \<not> sqlite_integer (the redemption_id) then (s, Inl OverflowError)
      else (s\<lparr>pending_redemptions := map (set_paid (the redemption_id)) (pending_redemptions s)\<rparr>,
            Inr (the redemption_id)))"

text \<open>
  \<^verbatim>\<open>UPDATE pending_redemptions SET status = 'expired'
  WHERE status = 'pending' AND requested_at < ?\<close> (lines 216-220). TEXT values are
  compared byte by byte, which is the lexicographic order on strings.
\<close>

definition set_expired :: "string \<Rightarrow> redemption \<Rightarrow> redemption" where
  "set_expired expired_time r =
     (if status r = ''pending'' \<and> requested_at r < expired_time
      then r\<lparr>status := ''expired''\<rparr> else r)"

text \<open>\<^verbatim>\<open>expire_old_redemptions\<close> (lines 211-223); \<open>expired_time\<close> is the clock
  reading minus 24 hours, formatted.\<close>

definition expire_old_redemptions :: "store \<Rightarrow> string \<Rightarrow> store \<times> (error + string)" where
  "expire_old_redemptions s expired_time =
     (s\<lparr>pending_redemptions := map (set_expired expired_time) (pending_redemptions s)\<rparr>,
      Inr expired_time)"

text \<open>\<^verbatim>\<open>get_pending_redemptions\<close> (lines 152-171).\<close>

definition get_pending_redemptions :: "store \<Rightarrow> store \<times> (error + redemption list)" where
  "get_pending_redemptions s =
     (s, Inr (filter (\<lambda>r. status r = ''pending'') (pending_redemptions s)))"

text \<open>\<^verbatim>\<open>sep.join(xs)\<close>.\<close>

primrec join :: "string \<Rightarrow> string list \<Rightarrow> string" where
  "join sep [] = []"
| "join sep (x # xs) = (if xs = [] then x else x @ sep @ join sep xs)"

text \<open>\<^verbatim>\<open>str(x)\<close> for a value that is a string or \<^verbatim>\<open>None\<close>.\<close>

definition str_opt :: "string option \<Rightarrow> string" where
  "str_opt x = (case x of None \<Rightarrow> ''None'' | Some u \<Rightarrow> u)"

text \<open>
  \<^verbatim>\<open>map(str, row)\<close> for a row of the SELECT of lines 194-197. \<^verbatim>\<open>str\<close> of a float
  (its shortest representation that reads back as the same float) is the argument
  \<open>str_float\<close>.
\<close>

definition row_strs :: "(pyfloat \<Rightarrow> string) \<Rightarrow> redemption \<Rightarrow> string list" where
  "row_strs str_float r =
     [str_int (r_id r), str_opt (r_user_id r), str_int (coins_redeemed r),
      str_float (usd_value r), requested_at r, status r]"

definition csv_header :: string where
  "csv_header = ''id,user_id,coins_redeemed,usd_value,requested_at,status'' @ [CHR 0x0A]"

text \<open>\<^verbatim>\<open>export_csv\<close> (lines 190-208); the payload is \<^verbatim>\<open>csv_data\<close>.\<close>

definition export_csv :: "(pyfloat \<Rightarrow> string) \<Rightarrow> store \<Rightarrow> store \<times> (error + string)" where
  "export_csv str_float s =
     (s, Inr (csv_header @
              concat (map (\<lambda>row. join '','' (row_strs str_float row) @ [CHR 0x0A])
                        (pending_redemptions s))))"

subsection \<open>Requests\<close>

text \<open>
  A request: the \<^verbatim>\<open>X-API-Key\<close> header, the route with its arguments, and what the
  clock gives when the handler reads it (the date and the time of day, the time written
  to the CSV log, and the time 24 hours before).
\<close>

datatype route =
    Home
  | Coin_earn "string option" int
  | Coin_redeem "string option" int
  | Coin_exchange "string option" pyfloat
  | Get_pending_redemptions
  | Mark_redeem_paid "int option"
  | Export_csv
  | Expire_old_redemptions
  | Coin_status "string option"
  | Reset_monthly

record request =
  api_key_header :: "string option"
  route :: route
  utc_today :: string
  utc_now :: string
  utc_log :: string
  utc_expired :: string

datatype payload =
    Running
  | Earned int
  | Credited string
  | Usd_requested string
  | Pending "redemption list"
  | Paid_id int
  | Csv_data string
  | Expired_before string
  | Status "string option \<times> int \<times> int \<times> int \<times> string"
  | Reset_done

definition answer :: "('a \<Rightarrow> payload) \<Rightarrow> store \<times> (error + 'a) \<Rightarrow> store \<times> (error + payload)" where
  "answer f x = (fst x, case snd x of Inl e \<Rightarrow> Inl e | Inr a \<Rightarrow> Inr (f a))"

text \<open>
  One request: \<^verbatim>\<open>require_api_key\<close> (lines 13-16) on every route but the home page,
  then the handler. \<open>API_KEY\<close> is the configured key (line 11).
\<close>

definition handle ::
  "string \<Rightarrow> (pyfloat \<Rightarrow> string) \<Rightarrow> store \<Rightarrow> request \<Rightarrow> store \<times> (error + payload)" where
  "handle API_KEY str_float s q =
     (if route q \<noteq> Home \<and> api_key_header q \<noteq> Some API_KEY then (s, Inl Forbidden)
      else case route q of
        Home \<Rightarrow> (s, Inr Running)
      | Coin_earn uid coins \<Rightarrow> answer Earned (coin_earn s uid coins (utc_today q))
      | Coin_redeem uid coins \<Rightarrow> answer Credited (coin_redeem s uid coins (utc_today q))
      | Coin_exchange uid usd \<Rightarrow>
          answer Usd_requested (coin_exchange s uid usd (utc_today q) (utc_now q) (utc_log q))
      | Get_pending_redemptions \<Rightarrow> answer Pending (get_pending_redemptions s)
      | Mark_redeem_paid i \<Rightarrow> answer Paid_id (mark_redeem_paid s i)
      | Export_csv \<Rightarrow> answer Csv_data (export_csv str_float s)
      | Expire_old_redemptions \<Rightarrow>
          answer Expired_before (expire_old_redemptions s (utc_expired q))
      | Coin_status uid \<Rightarrow> answer Status (coin_status s uid (utc_today q))
      | Reset_monthly \<Rightarrow> answer (\<lambda>_. Reset_done) (reset_monthly s (utc_today q)))"

text \<open>A sequence of requests, served one after the other.\<close>

primrec run :: "string \<Rightarrow> (pyfloat \<Rightarrow> string) \<Rightarrow> store \<Rightarrow> request list \<Rightarrow> store" where
  "run API_KEY str_float s [] = s"
| "run API_KEY str_float s (q # qs) = run API_KEY str_float (fst (handle API_KEY str_float s q)) qs"

subsection \<open>Invariants of the store\<close>

text \<open>The PRIMARY KEY of \<^verbatim>\<open>users\<close>: no two rows share a user id that is not NULL.\<close>

definition key_inv :: "store \<Rightarrow> bool" where
  "key_inv s = distinct (map user_id (filter (\<lambda>r. user_id r \<noteq> None) (users s)))"

text \<open>The monthly cap on every account.\<close>

definition cap_inv :: "store \<Rightarrow> bool" where
  "cap_inv s =
     list_all (\<lambda>r. 0 \<le> monthly_coin_redeemed r \<and> monthly_coin_redeemed r \<le> MAX_MONTHLY_COINS)
       (users s)"

text \<open>Whether a request is a Redeem naming the account \<open>u\<close>.\<close>

definition redeems :: "string \<Rightarrow> request \<Rightarrow> bool" where
  "redeems u q = (case route q of Coin_redeem uid c \<Rightarrow> uid = Some u | _ \<Rightarrow> False)"

text \<open>The account \<open>u\<close> has not redeemed more than it earned.\<close>

definition bal_inv :: "string \<Rightarrow> store \<Rightarrow> bool" where
  "bal_inv u s =
     list_all (\<lambda>r. user_id r = Some u \<longrightarrow> monthly_coin_redeemed r \<le> monthly_coin_earned r)
       (users s)"

text \<open>
  The counters of the account that \<^verbatim>\<open>WHERE user_id = ?\<close> selects, and 0 when there is
  none (the counters a new account starts with).
\<close>

definition redeemed_of :: "store \<Rightarrow> string option \<Rightarrow> int" where
  "redeemed_of s uid =
     (case find (\<lambda>r. sql_eq (user_id r) uid) (users s) of
        None \<Rightarrow> 0 | Some r \<Rightarrow> monthly_coin_redeemed r)"

definition earned_of :: "store \<Rightarrow> string option \<Rightarrow> int" where
  "earned_of s uid =
     (case find (\<lambda>r. sql_eq (user_id r) uid) (users s) of
        None \<Rightarrow> 0 | Some r \<Rightarrow> monthly_coin_earned r)"

subsection \<open>Reading an export back\<close>

text \<open>
  The parser of the round-trip claim, written from the claim's words, not from the
  code: the text is split into lines at every newline, the header line and the empty
  line after the last newline are dropped, and each line is split into fields at every
  comma. \<open>split_from c field text\<close> reads \<open>text\<close> with \<open>field\<close> the part of the
  current field read so far.
\<close>

fun split_from :: "char \<Rightarrow> string \<Rightarrow> string \<Rightarrow> string list" where
  "split_from c field [] = [field]"
| "split_from c field (x # xs) =
     (if x = c then field # split_from c [] xs else split_from c (field @ [x]) xs)"

definition split_on :: "char \<Rightarrow> string \<Rightarrow> string list" where
  "split_on c text = split_from c [] text"

definition parse_csv :: "string \<Rightarrow> string list list" where
  "parse_csv text =
     map (split_on (CHR '','')) (filter (\<lambda>line. line \<noteq> []) (tl (split_on (CHR 0x0A) text)))"

subsection \<open>Example stores\<close>

text \<open>A store with one account and one pending redemption of 5 dollars.\<close>

definition example_redemption :: redemption where
  "example_redemption =
     \<lparr>r_id = 1, r_user_id = Some ''alice'', coins_redeemed = 5000000, usd_value = Finite 5,
      requested_at = ''2024-01-01 00:00:00'', status = ''pending''\<rparr>"

definition example_store :: store where
  "example_store =
     \<lparr>users = [\<lparr>user_id = Some ''alice'', monthly_coin_earned = 10000000,
                monthly_coin_redeemed = 5000000, last_reset = ''2024-01-01''\<rparr>],
      pending_redemptions = [example_redemption],
      sqlite_sequence = 1,
      csv_log = Some [\<lparr>log_timestamp = ''2024-01-01 00:00:00'', log_user_id = Some ''alice'',
                       log_usd_value = ''5.00'', log_coins_redeemed = 5000000,
                       log_status = ''pending''\<rparr>]\<rparr>"

text \<open>Two requests that lead from the empty database to the example store.\<close>

definition example_requests :: "request list" where
  "example_requests =
     [\<lparr>api_key_header = Some ''secret'', route = Coin_earn (Some ''alice'') 10000000,
       utc_today = ''2024-01-01'', utc_now = ''2024-01-01 00:00:00'',
       utc_log = ''2024-01-01 00:00:00'', utc_expired = ''2023-12-31 00:00:00''\<rparr>,
      \<lparr>api_key_header = Some ''secret'', route = Coin_exchange (Some ''alice'') (Finite 5),
       utc_today = ''2024-01-01'', utc_now = ''2024-01-01 00:00:00'',
       utc_log = ''2024-01-01 00:00:00'', utc_expired = ''2023-12-31 00:00:00''\<rparr>]"



text \<open>
  Two requests that lead from the empty database to a store with one pending
  redemption, of a user whose id contains a comma.
\<close>

definition comma_requests :: "request list" where
  "comma_requests =
     [\<lparr>api_key_header = Some ''secret'', route = Coin_earn (Some ''a,b'') 10000000,
       utc_today = ''2024-01-01'', utc_now = ''2024-01-01 00:00:00'',
       utc_log = ''2024-01-01 00:00:00'', utc_expired = ''2023-12-31 00:00:00''\<rparr>,
      \<lparr>api_key_header = Some ''secret'', route = Coin_exchange (Some ''a,b'') (Finite 5),
       utc_today = ''2024-01-01'', utc_now = ''2024-01-01 00:00:00'',
       utc_log = ''2024-01-01 00:00:00'', utc_expired = ''2023-12-31 00:00:00''\<rparr>]"

definition comma_store :: store where
  "comma_store =
     \<lparr>users = [\<lparr>user_id = Some ''a,b'', monthly_coin_earned = 10000000,
                monthly_coin_redeemed = 5000000, last_reset = ''2024-01-01''\<rparr>],
      pending_redemptions =
        [\<lparr>r_id = 1, r_user_id = Some ''a,b'', coins_redeemed = 5000000, usd_value = Finite 5,
          requested_at = ''2024-01-01 00:00:00'', status = ''pending''\<rparr>],
      sqlite_sequence = 1,
      csv_log = Some [\<lparr>log_timestamp = ''2024-01-01 00:00:00'', log_user_id = Some ''a,b'',
                       log_usd_value = ''5.00'', log_coins_redeemed = 5000000,
                       log_status = ''pending''\<rparr>]\<rparr>"

section \<open>Properties\<close>

subsection \<open>Rounding\<close>

lemma floor_log2_ge1:
  assumes "1 \<le> a"
  shows "2 powi (floor_log2 a) \<le> a" "a < 2 powi (floor_log2 a + 1)"
proof -
  let ?n = "nat \<lfloor>a\<rfloor>"
  let ?k = "floorlog 2 ?n"
  have n: "0 < ?n" using assms by simp
  from floorlog_bounds [OF n, of 2]
  have b: "2 ^ (?k - 1) \<le> ?n" "?n < 2 ^ ?k" by simp_all
  have k: "0 < ?k" using n by (simp add: floorlog_def)
  have e: "floor_log2 a = int (?k - 1)" using assms k by (simp add: floor_log2_def)
  have "(2::rat) ^ (?k - 1) \<le> of_nat ?n"
    using b(1) by (metis of_nat_le_iff of_nat_numeral of_nat_power)
  also have "of_nat ?n \<le> a" using assms by simp
  finally show "2 powi (floor_log2 a) \<le> a" by (simp add: e)
  have "a < of_int (\<lfloor>a\<rfloor> + 1)" by linarith
  also have "\<dots> = of_nat (?n + 1)" using assms by simp
  also have "\<dots> \<le> (2::rat) ^ ?k"
    using b(2) by (metis Suc_eq_plus1 Suc_leI of_nat_le_iff of_nat_numeral of_nat_power)
  finally show "a < 2 powi (floor_log2 a + 1)"
    using k by (simp add: e)
qed

lemma floor_log2_lt1:
  assumes "0 < a" "a < 1"
  shows "2 powi (floor_log2 a) \<le> a" "a < 2 powi (floor_log2 a + 1)"
proof -
  define N where "N = \<lceil>1 / a\<rceil>"
  define m where "m = nat (N - 1)"
  define j where "j = floorlog 2 m"
  have inv: "1 < 1 / a" using assms by simp
  then have N: "2 \<le> N" unfolding N_def by linarith
  then have m: "0 < m" and Nm: "N = int m + 1" unfolding m_def by linarith+
  from floorlog_bounds [OF m, of 2]
  have b: "2 ^ (j - 1) \<le> m" "m < 2 ^ j" unfolding j_def by simp_all
  have j: "0 < j" using m unfolding j_def by (simp add: floorlog_def)
  have e: "floor_log2 a = - int j"
    using assms by (simp add: floor_log2_def j_def m_def N_def)
  have "1 / a \<le> of_int N" unfolding N_def by linarith
  also have "\<dots> = of_nat (m + 1)" by (simp add: Nm)
  also have "\<dots> \<le> (2::rat) ^ j"
    using b(2) by (metis Suc_eq_plus1 Suc_leI of_nat_le_iff of_nat_numeral of_nat_power)
  finally have "1 / a \<le> 2 ^ j" .
  then have "1 \<le> 2 ^ j * a" using assms by (simp add: field_simps)
  then show "2 powi (floor_log2 a) \<le> a"
    by (simp add: e power_int_minus field_simps)
  have "(2::rat) ^ (j - 1) \<le> of_nat m"
    using b(1) by (metis of_nat_le_iff of_nat_numeral of_nat_power)
  also have "\<dots> = of_int (N - 1)" by (simp add: Nm)
  also have "\<dots> < 1 / a" unfolding N_def by linarith
  finally have "(2::rat) ^ (j - 1) < 1 / a" .
  then have lt: "a * 2 ^ (j - 1) < 1" using assms by (simp add: field_simps)
  have "floor_log2 a + 1 = - int (j - 1)" using j by (simp add: e)
  then show "a < 2 powi (floor_log2 a + 1)"
    using lt by (simp add: power_int_minus field_simps del: of_nat_diff)
qed

lemma floor_log2_bounds:
  assumes "0 < a"
  shows "2 powi (floor_log2 a) \<le> a" "a < 2 powi (floor_log2 a + 1)"
  using assms floor_log2_ge1 [of a] floor_log2_lt1 [of a] by (cases "1 \<le> a"; simp)+

lemma floor_log2_eqI:
  assumes "2 powi e \<le> a" "a < 2 powi (e + 1)"
  shows "floor_log2 a = e"
proof -
  have pos: "0 < a" using assms(1) by (rule less_le_trans [rotated]) simp
  from floor_log2_bounds [OF pos]
  have f: "2 powi (floor_log2 a) \<le> a" "a < 2 powi (floor_log2 a + 1)" by simp_all
  have "(2::rat) powi e < 2 powi (floor_log2 a + 1)" using assms(1) f(2) by simp
  then have 1: "e < floor_log2 a + 1"
    using power_int_increasing [of "floor_log2 a + 1" e "2::rat"] by (cases "e < floor_log2 a + 1") simp_all
  have "(2::rat) powi (floor_log2 a) < 2 powi (e + 1)" using assms(2) f(1) by simp
  then have 2: "floor_log2 a < e + 1"
    using power_int_increasing [of "e + 1" "floor_log2 a" "2::rat"] by (cases "floor_log2 a < e + 1") simp_all
  from 1 2 show ?thesis by simp
qed

lemma round_half_even_bounds:
  "of_int (round_half_even x) \<le> x + 1" "x - 1 \<le> of_int (round_half_even x)"
  unfolding round_half_even_def Let_def by (simp_all; linarith)+

lemma round_half_even_nonneg: "0 \<le> x \<Longrightarrow> 0 \<le> round_half_even x"
  unfolding round_half_even_def Let_def by simp

lemma round_half_even_of_int [simp]: "round_half_even (of_int n) = n"
  unfolding round_half_even_def Let_def by simp

lemma round_double_pos:
  assumes "0 < q"
  shows "round_double q = PosInf \<or> (\<exists>v. round_double q = Finite v \<and> 0 \<le> v)"
  using assms by (simp add: round_double_def Let_def round_half_even_nonneg)

lemma round_double_finite:
  assumes "0 < q" "q \<le> 2 ^ 1000"
  shows "\<exists>v. round_double q = Finite v \<and> 0 \<le> v"
proof -
  define p where "p = max (floor_log2 q - 52) (- 1074)"
  define v where "v = of_int (round_half_even (q / 2 powi p)) * (2::rat) powi p"
  have pp: "(0::rat) < 2 powi p" by simp
  have "(2::rat) powi (floor_log2 q - 52) \<le> 2 powi (floor_log2 q)"
    by (rule power_int_increasing) simp_all
  also have "\<dots> \<le> q" using floor_log2_bounds(1) [OF assms(1)] .
  finally have 1: "(2::rat) powi (floor_log2 q - 52) \<le> q" .
  have "(2::rat) powi (- 1074) \<le> 2 powi 0"
    by (rule power_int_increasing) simp_all
  then have 2: "(2::rat) powi (- 1074) \<le> 1" by simp
  have p_le: "(2::rat) powi p \<le> q + 1"
    unfolding p_def max_def using 1 2 assms(1) by auto
  have "v \<le> (q / 2 powi p + 1) * 2 powi p"
    unfolding v_def using round_half_even_bounds(1) [of "q / 2 powi p"] pp
    by (intro mult_right_mono) simp_all
  also have "\<dots> = q + 2 powi p" by (simp add: field_simps)
  also have "\<dots> \<le> 2 * q + 1" using p_le by simp
  also have "\<dots> \<le> 2 * 2 ^ 1000 + 1" using assms(2) by simp
  also have "\<dots> < 2 ^ 1024" by simp
  finally have "\<not> 2 powi 1024 \<le> v" by simp
  moreover have "0 \<le> v" unfolding v_def using assms(1) by (simp add: round_half_even_nonneg)
  ultimately show ?thesis
    using assms(1) by (simp add: round_double_def Let_def p_def [symmetric] v_def [symmetric])
qed

lemma round_double_of_int:
  assumes "0 < n" "n < 2 ^ 53"
  shows "round_double (of_int n) = Finite (of_int n)"
proof -
  define q :: rat where "q = of_int n"
  define p where "p = max (floor_log2 q - 52) (- 1074)"
  have q: "0 < q" "q < 2 ^ 53" using assms unfolding q_def
    by (simp, metis of_int_less_iff of_int_numeral of_int_power)
  have "(2::rat) powi (floor_log2 q) < 2 powi 53"
    using floor_log2_bounds(1) [OF q(1)] q(2) by simp
  then have "floor_log2 q < 53"
    using power_int_increasing [of 53 "floor_log2 q" "2::rat"] by (cases "floor_log2 q < 53") simp_all
  then have p: "p \<le> 0" unfolding p_def by simp
  have pw: "(2::rat) powi p = 1 / 2 ^ nat (- p)"
    using p by (simp add: power_int_def field_simps)
  have "q / 2 powi p = of_int (n * 2 ^ nat (- p))" by (simp add: pw q_def)
  then have "round_half_even (q / 2 powi p) = n * 2 ^ nat (- p)"
    by (simp only: round_half_even_of_int)
  then have v: "of_int (round_half_even (q / 2 powi p)) * (2::rat) powi p = q"
    by (simp add: pw q_def)
  have "\<not> (2::rat) powi 1024 \<le> q" using q(2) by simp
  then show ?thesis
    using q(1) v unfolding q_def [symmetric]
    by (simp add: round_double_def Let_def p_def [symmetric])
qed

lemma round_double_example: "round_double (15625 / 32768) = Finite (15625 / 32768)"
proof -
  have e: "floor_log2 (15625 / 32768) = - 2"
    by (rule floor_log2_eqI) simp_all
  show ?thesis
    by (simp add: round_double_def Let_def e round_half_even_def)
qed

subsection \<open>Accounts: helper facts\<close>

lemma get_or_create_user_cases:
  assumes "get_or_create_user s uid t = (s1, user)"
  shows "(s1 = s \<and> user \<in> set (users s) \<and> sql_eq (user_id user) uid) \<or>
         (s1 = s\<lparr>users := users s @ [user]\<rparr> \<and>
          user = \<lparr>user_id = uid, monthly_coin_earned = 0, monthly_coin_redeemed = 0,
                  last_reset = t\<rparr> \<and>
          (\<forall>r \<in> set (users s). \<not> sql_eq (user_id r) uid))"
  using assms
  by (auto simp: get_or_create_user_def Let_def find_Some_iff find_None_iff
      split: option.splits)

lemma sql_eq_iff: "sql_eq a b \<longleftrightarrow> a \<noteq> None \<and> a = b"
  by (cases a; cases b) auto

lemma key_inv_unique:
  assumes "key_inv s" "r \<in> set (users s)" "r' \<in> set (users s)"
    "sql_eq (user_id r) uid" "sql_eq (user_id r') uid"
  shows "r = r'"
proof -
  let ?xs = "filter (\<lambda>r. user_id r \<noteq> None) (users s)"
  have "inj_on user_id (set ?xs)"
    using assms(1) unfolding key_inv_def by (simp only: distinct_map)
  moreover have "r \<in> set ?xs" "r' \<in> set ?xs" "user_id r = user_id r'"
    using assms(2-5) by (auto simp: sql_eq_iff)
  ultimately show ?thesis by (meson inj_onD)
qed

lemma get_or_create_user_unique:
  assumes "key_inv s" "get_or_create_user s uid t = (s1, user)"
    "r \<in> set (users s1)" "sql_eq (user_id r) uid"
  shows "r = user"
  using get_or_create_user_cases [OF assms(2)] assms(1,3,4)
  by (auto dest: key_inv_unique)

lemma get_or_create_user_key_inv:
  assumes "key_inv s" "get_or_create_user s uid t = (s1, user)"
  shows "key_inv s1"
proof -
  from get_or_create_user_cases [OF assms(2)] show ?thesis
  proof (elim disjE conjE)
    assume "s1 = s" then show ?thesis using assms(1) by simp
  next
    assume s1: "s1 = s\<lparr>users := users s @ [user]\<rparr>"
      and u: "user = \<lparr>user_id = uid, monthly_coin_earned = 0, monthly_coin_redeemed = 0,
                  last_reset = t\<rparr>"
      and no: "\<forall>r \<in> set (users s). \<not> sql_eq (user_id r) uid"
    have "uid \<noteq> None \<Longrightarrow> uid \<notin> user_id ` set (users s)"
      using no by (auto simp: sql_eq_iff)
    then show ?thesis
      using assms(1) by (auto simp: key_inv_def s1 u)
  qed
qed

lemma get_or_create_user_cap_inv:
  assumes "cap_inv s" "get_or_create_user s uid t = (s1, user)"
  shows "cap_inv s1"
  using get_or_create_user_cases [OF assms(2)] assms(1)
  by (auto simp: cap_inv_def MAX_MONTHLY_COINS_def)

lemma get_or_create_user_mem:
  assumes "get_or_create_user s uid t = (s1, user)"
  shows "user \<in> set (users s1)"
  using get_or_create_user_cases [OF assms] by auto

lemma key_inv_map:
  assumes "\<And>r. user_id (f r) = user_id r"
  shows "key_inv (s\<lparr>users := map f (users s)\<rparr>) = key_inv s"
  by (simp add: key_inv_def filter_map o_def assms)

lemma add_redeemed_user_id [simp]: "user_id (add_redeemed c uid r) = user_id r"
  by (simp add: add_redeemed_def)

lemma add_earned_user_id [simp]: "user_id (add_earned c uid r) = user_id r"
  by (simp add: add_earned_def)

lemma cap_inv_add_redeemed:
  assumes "cap_inv s" "user \<in> set (users s)"
    "\<And>r. r \<in> set (users s) \<Longrightarrow> sql_eq (user_id r) uid \<Longrightarrow> r = user"
    "0 \<le> c" "monthly_coin_redeemed user + c \<le> MAX_MONTHLY_COINS"
  shows "cap_inv (s\<lparr>users := map (add_redeemed c uid) (users s)\<rparr>)"
  using assms
  by (auto simp: cap_inv_def list_all_iff add_redeemed_def)

lemma cap_inv_add_earned:
  "cap_inv s \<Longrightarrow> cap_inv (s\<lparr>users := map (add_earned c uid) (users s)\<rparr>)"
  by (auto simp: cap_inv_def list_all_iff add_earned_def)

lemma coin_redeem_fst:
  assumes "get_or_create_user s uid t = (s1, user)"
  shows "fst (coin_redeem s uid c t) =
     (if py_not uid \<or> c \<le> 0 then s
      else if monthly_coin_redeemed user + c > MAX_MONTHLY_COINS then s1
      else s1\<lparr>users := map (add_redeemed c uid) (users s1)\<rparr>)"
  by (simp add: coin_redeem_def assms Let_def split: sum.split)

lemma coin_redeem_inv:
  assumes "key_inv s" "cap_inv s"
  shows "key_inv (fst (coin_redeem s uid c t)) \<and> cap_inv (fst (coin_redeem s uid c t))"
proof -
  obtain s1 user where g: "get_or_create_user s uid t = (s1, user)"
    by (cases "get_or_create_user s uid t")
  note k1 = get_or_create_user_key_inv [OF assms(1) g]
  note c1 = get_or_create_user_cap_inv [OF assms(2) g]
  have upd: "cap_inv (s1\<lparr>users := map (add_redeemed c uid) (users s1)\<rparr>)"
    if "0 \<le> c" "monthly_coin_redeemed user + c \<le> MAX_MONTHLY_COINS"
  proof (rule cap_inv_add_redeemed [where user = user])
    show "cap_inv s1" by (rule c1)
    show "user \<in> set (users s1)" by (rule get_or_create_user_mem [OF g])
    show "r = user" if "r \<in> set (users s1)" "sql_eq (user_id r) uid" for r
      using that by (rule get_or_create_user_unique [OF assms(1) g])
  qed (use that in simp_all)
  have kupd: "key_inv (s1\<lparr>users := map (add_redeemed c uid) (users s1)\<rparr>)"
    using k1 by (simp add: key_inv_map)
  show ?thesis
    unfolding coin_redeem_fst [OF g]
    using assms k1 c1 upd kupd by simp
qed


lemma exchange_coins_nonneg:
  assumes "py_int (float_mul_int usd COINS_PER_DOLLAR) = Inr c" "\<not> float_le_int usd 0"
  shows "0 \<le> c"
proof (cases usd)
  case (Finite a)
  then have "0 < a * of_int COINS_PER_DOLLAR"
    using assms(2) by (simp add: float_le_int_def COINS_PER_DOLLAR_def)
  from round_double_pos [OF this] show ?thesis
    using assms(1) Finite by (auto simp: py_int_def float_mul_int_def split: if_splits)
qed (use assms in \<open>auto simp: py_int_def float_mul_int_def float_le_int_def COINS_PER_DOLLAR_def\<close>)

lemma coin_earn_inv:
  assumes "key_inv s" "cap_inv s"
  shows "key_inv (fst (coin_earn s uid c t)) \<and> cap_inv (fst (coin_earn s uid c t))"
proof -
  obtain s1 user where g: "get_or_create_user s uid t = (s1, user)"
    by (cases "get_or_create_user s uid t")
  show ?thesis
    using assms get_or_create_user_key_inv [OF assms(1) g] get_or_create_user_cap_inv [OF assms(2) g]
    by (simp add: coin_earn_def g key_inv_map cap_inv_add_earned)
qed

lemma key_inv_cong: "users s = users s' \<Longrightarrow> key_inv s = key_inv s'"
  by (simp add: key_inv_def)

lemma cap_inv_cong: "users s = users s' \<Longrightarrow> cap_inv s = cap_inv s'"
  by (simp add: cap_inv_def)

text \<open>The outcome of \<open>coin_exchange\<close> once the amount has passed the check of line 125.\<close>

lemma coin_exchange_checked:
  assumes "get_or_create_user s uid t = (s1, user)"
    "py_int (float_mul_int usd COINS_PER_DOLLAR) = Inr c"
    "\<not> float_le_int usd 0" "\<not> float_gt_int usd 100"
  shows "coin_exchange s uid usd t n l =
     (if c > monthly_coin_earned user - monthly_coin_redeemed user
      then (s1, Inl Insufficient_coins)
      else if monthly_coin_redeemed user + c > MAX_MONTHLY_COINS
      then (s1, Inl Monthly_redeem_cap_exceeded)
      else (log_redemption_csv
              (s1\<lparr>users := map (add_redeemed c uid) (users s1),
                  pending_redemptions := pending_redemptions s1 @
                    [\<lparr>r_id = sqlite_sequence s1 + 1, r_user_id = uid, coins_redeemed = c,
                      usd_value = usd, requested_at = n, status = ''pending''\<rparr>],
                  sqlite_sequence := sqlite_sequence s1 + 1\<rparr>) uid usd c l,
            Inr (''$'' @ format_2f usd)))"
  by (simp add: coin_exchange_def assms Let_def)

lemma coin_exchange_unchecked:
  assumes "py_int (float_mul_int usd COINS_PER_DOLLAR) = Inl e \<or>
           float_le_int usd 0 \<or> float_gt_int usd 100"
  shows "fst (coin_exchange s uid usd t n l) = s"
  using assms by (auto simp: coin_exchange_def split: sum.split)

lemma coin_exchange_inv:
  assumes "key_inv s" "cap_inv s"
  shows "key_inv (fst (coin_exchange s uid usd t n l)) \<and>
         cap_inv (fst (coin_exchange s uid usd t n l))"
proof (cases "(\<exists>e. py_int (float_mul_int usd COINS_PER_DOLLAR) = Inl e) \<or>
           float_le_int usd 0 \<or> float_gt_int usd 100")
  case True
  then have "fst (coin_exchange s uid usd t n l) = s"
    using coin_exchange_unchecked by blast
  then show ?thesis using assms by simp
next
  case False
  then obtain c where c: "py_int (float_mul_int usd COINS_PER_DOLLAR) = Inr c"
    and chk: "\<not> float_le_int usd 0" "\<not> float_gt_int usd 100"
    by (cases "py_int (float_mul_int usd COINS_PER_DOLLAR)") auto
  obtain s1 user where g: "get_or_create_user s uid t = (s1, user)"
    by (cases "get_or_create_user s uid t")
  note k1 = get_or_create_user_key_inv [OF assms(1) g]
  note c1 = get_or_create_user_cap_inv [OF assms(2) g]
  have c0: "0 \<le> c" using exchange_coins_nonneg [OF c chk(1)] .
  have upd: "cap_inv (s1\<lparr>users := map (add_redeemed c uid) (users s1)\<rparr>)"
    if "monthly_coin_redeemed user + c \<le> MAX_MONTHLY_COINS"
  proof (rule cap_inv_add_redeemed [where user = user])
    show "cap_inv s1" by (rule c1)
    show "user \<in> set (users s1)" by (rule get_or_create_user_mem [OF g])
    show "r = user" if "r \<in> set (users s1)" "sql_eq (user_id r) uid" for r
      using that by (rule get_or_create_user_unique [OF assms(1) g])
  qed (use that c0 in simp_all)
  have kupd: "key_inv (s1\<lparr>users := map (add_redeemed c uid) (users s1)\<rparr>)"
    using k1 by (simp add: key_inv_map)
  let ?s2 = "s1\<lparr>users := map (add_redeemed c uid) (users s1),
                  pending_redemptions := pending_redemptions s1 @
                    [\<lparr>r_id = sqlite_sequence s1 + 1, r_user_id = uid, coins_redeemed = c,
                      usd_value = usd, requested_at = n, status = ''pending''\<rparr>],
                  sqlite_sequence := sqlite_sequence s1 + 1\<rparr>"
  have u: "users (log_redemption_csv ?s2 uid usd c l) =
           users (s1\<lparr>users := map (add_redeemed c uid) (users s1)\<rparr>)"
    by (simp add: log_redemption_csv_def)
  show ?thesis
    unfolding coin_exchange_checked [OF g c chk]
    using k1 c1 upd kupd key_inv_cong [OF u] cap_inv_cong [OF u] by simp
qed

lemma reset_monthly_inv:
  assumes "key_inv s"
  shows "key_inv (fst (reset_monthly s t)) \<and> cap_inv (fst (reset_monthly s t))"
  using assms
  by (simp add: reset_monthly_def key_inv_map cap_inv_def list_all_iff MAX_MONTHLY_COINS_def)

lemma coin_status_fst:
  "fst (coin_status s uid t) = (if py_not uid then s else fst (get_or_create_user s uid t))"
  by (simp add: coin_status_def Let_def split: prod.split sum.split)

lemma coin_status_inv:
  assumes "key_inv s" "cap_inv s"
  shows "key_inv (fst (coin_status s uid t)) \<and> cap_inv (fst (coin_status s uid t))"
proof -
  obtain s1 user where g: "get_or_create_user s uid t = (s1, user)"
    by (cases "get_or_create_user s uid t")
  show ?thesis
    unfolding coin_status_fst
    using assms get_or_create_user_key_inv [OF assms(1) g] get_or_create_user_cap_inv [OF assms(2) g]
    by (simp add: g)
qed

lemma lifecycle_users [simp]:
  "users (fst (mark_redeem_paid s i)) = users s"
  "users (fst (expire_old_redemptions s e)) = users s"
  by (simp_all add: mark_redeem_paid_def expire_old_redemptions_def)

lemma answer_fst [simp]: "fst (answer f x) = fst x"
  by (simp add: answer_def)

lemma handle_inv:
  assumes "key_inv s" "cap_inv s"
  shows "key_inv (fst (handle K f s q)) \<and> cap_inv (fst (handle K f s q))"
proof (cases "route q \<noteq> Home \<and> api_key_header q \<noteq> Some K")
  case True
  then show ?thesis using assms by (simp add: handle_def)
next
  case False
  then show ?thesis
    using assms coin_earn_inv [OF assms] coin_redeem_inv [OF assms] coin_exchange_inv [OF assms]
      reset_monthly_inv [OF assms(1)] coin_status_inv [OF assms]
      key_inv_cong [of "fst (mark_redeem_paid s i)" s for i]
      cap_inv_cong [of "fst (mark_redeem_paid s i)" s for i]
      key_inv_cong [of "fst (expire_old_redemptions s e)" s for e]
      cap_inv_cong [of "fst (expire_old_redemptions s e)" s for e]
    by (cases "route q")
       (simp_all add: handle_def get_pending_redemptions_def export_csv_def)
qed


lemma init_db_inv: "key_inv init_db" "cap_inv init_db"
  by (simp_all add: key_inv_def cap_inv_def init_db_def)


subsection \<open>The example run\<close>

lemma py_int_5_dollars: "py_int (float_mul_int (Finite 5) COINS_PER_DOLLAR) = Inr 5000000"
  using round_double_of_int [of 5000000]
  by (simp add: float_mul_int_def COINS_PER_DOLLAR_def py_int_def)

lemma str_nat_digit: "n < 10 \<Longrightarrow> str_nat n = [digit_char n]"
  by (simp add: str_nat.simps)

lemma format_2f_5: "format_2f (Finite 5) = ''5.00''"
  using round_half_even_of_int [of 500]
  by (simp add: format_2f_def str_nat_digit digit_char_def)

lemma example_store_reached: "run ''secret'' f init_db example_requests = example_store"
  by (simp add: example_requests_def handle_def answer_def coin_earn_def coin_exchange_def
      get_or_create_user_def init_db_def add_earned_def add_redeemed_def py_int_5_dollars
      float_le_int_def float_gt_int_def MAX_MONTHLY_COINS_def log_redemption_csv_def
      format_2f_5 example_store_def example_redemption_def Let_def)

subsection \<open>Redemption lifecycle: helper facts\<close>

lemma map_set_paid_absent:
  "\<forall>r \<in> set rs. r_id r \<noteq> i \<Longrightarrow> map (set_paid i) rs = rs"
  by (induction rs) (simp_all add: set_paid_def)

lemma set_paid_idem: "set_paid i (set_paid i r) = set_paid i r"
  by (simp add: set_paid_def)

subsection \<open>Redemption lifecycle\<close>

lemma set_paid_of_paid: "status r = ''paid'' \<Longrightarrow> set_paid i r = r"
  by (simp add: set_paid_def)

lemma set_expired_not_pending: "status r \<noteq> ''pending'' \<Longrightarrow> set_expired t r = r"
  by (simp add: set_expired_def)

text \<open>
  C4. The claim: a redemption that is paid or expired never changes its status again,
  whatever id a later \<^verbatim>\<open>mark_redeem_paid\<close> is called with. The code at the failing
  input: the pending redemption 1 of the example store is expired by a sweep, and a
  later \<^verbatim>\<open>mark_redeem_paid\<close> of id 1 turns it from expired to paid, because the
  UPDATE of line 184 has no condition on the status (the UPDATE of line 219 has one).
\<close>

theorem mark_redeem_paid_revives_expired:
  "map status (pending_redemptions (fst (expire_old_redemptions example_store
       ''2024-01-03 00:00:00''))) = [''expired''] \<and>
   map status (pending_redemptions (fst (mark_redeem_paid
       (fst (expire_old_redemptions example_store ''2024-01-03 00:00:00'')) (Some 1))))
     = [''paid'']"
  by (simp add: expire_old_redemptions_def mark_redeem_paid_def sqlite_integer_def
      set_expired_def set_paid_def example_store_def example_redemption_def)

lemma mark_redeem_paid_absent:
  assumes "i \<noteq> 0" "sqlite_integer i" "\<forall>r \<in> set (pending_redemptions s). r_id r \<noteq> i"
  shows "mark_redeem_paid s (Some i) = (s, Inr i)"
  using assms by (simp add: mark_redeem_paid_def map_set_paid_absent)

lemma mark_redeem_paid_present:
  assumes "i \<noteq> 0" "sqlite_integer i"
  shows "snd (mark_redeem_paid s (Some i)) = Inr i"
    "pending_redemptions (fst (mark_redeem_paid s (Some i))) =
       map (set_paid i) (pending_redemptions s)"
  using assms by (simp_all add: mark_redeem_paid_def)

lemma mark_redeem_paid_twice:
  "mark_redeem_paid (fst (mark_redeem_paid s i)) i = mark_redeem_paid s i"
  by (simp add: mark_redeem_paid_def set_paid_idem o_def)

lemma mark_redeem_paid_zero: "mark_redeem_paid s (Some 0) = (s, Inl Missing_redemption_ID)"
  by (simp add: mark_redeem_paid_def)

lemma mark_redeem_paid_overflow:
  "i \<noteq> 0 \<Longrightarrow> \<not> sqlite_integer i \<Longrightarrow> mark_redeem_paid s (Some i) = (s, Inl OverflowError)"
  by (simp add: mark_redeem_paid_def)

text \<open>
  C9. The claim: for every id that no redemption has, \<^verbatim>\<open>mark_redeem_paid\<close> changes
  nothing and answers success. The code at the failing input: in the example store,
  whose only redemption has id 1, the ids 0, 2 and \<open>2 ^ 63\<close> all match no redemption;
  id 2 is answered with success and the store unchanged, as the claim says, but id 0 is
  answered with the error for a missing id (the test \<^verbatim>\<open>not redemption_id\<close> of line 179
  is true of 0), and id \<open>2 ^ 63\<close> raises \<^verbatim>\<open>OverflowError\<close> at line 184.
\<close>

theorem mark_redeem_paid_unknown_id_errors:
  "map r_id (pending_redemptions example_store) = [1] \<and>
   mark_redeem_paid example_store (Some 2) = (example_store, Inr 2) \<and>
   mark_redeem_paid example_store (Some 0) = (example_store, Inl Missing_redemption_ID) \<and>
   mark_redeem_paid example_store (Some (2 ^ 63)) = (example_store, Inl OverflowError)"
  by (simp add: mark_redeem_paid_def sqlite_integer_def set_paid_def example_store_def
      example_redemption_def)

subsection \<open>The counters of an account\<close>

lemma get_or_create_user_counters:
  assumes "get_or_create_user s uid t = (s1, user)"
  shows "monthly_coin_redeemed user = redeemed_of s uid"
    "monthly_coin_earned user = earned_of s uid"
  using assms
  by (auto simp: get_or_create_user_def redeemed_of_def earned_of_def Let_def
      split: option.splits)

lemma find_append_eq:
  "find P (xs @ ys) = (case find P xs of None \<Rightarrow> find P ys | Some x \<Rightarrow> Some x)"
  by (induction xs) simp_all

lemma get_or_create_user_find:
  assumes "get_or_create_user s uid t = (s1, user)"
  shows "find (\<lambda>r. sql_eq (user_id r) uid) (users s1) =
         (if uid = None then None else Some user)"
proof (cases "find (\<lambda>r. sql_eq (user_id r) uid) (users s)")
  case None
  with assms show ?thesis
    by (auto simp: get_or_create_user_def Let_def find_append_eq sql_eq_iff)
next
  case (Some x)
  then have "sql_eq (user_id x) uid" by (auto simp: find_Some_iff)
  then have "uid \<noteq> None" by (auto simp: sql_eq_iff)
  with assms Some show ?thesis
    by (auto simp: get_or_create_user_def)
qed

lemma find_False [simp]: "find (\<lambda>r. False) xs = None"
  by (induction xs) simp_all

lemma find_map_same:
  assumes "\<And>r. P (f r) = P r"
  shows "find P (map f xs) = map_option f (find P xs)"
  by (induction xs) (simp_all add: assms)

lemma find_add_redeemed:
  "find (\<lambda>r. sql_eq (user_id r) uid) (map (add_redeemed c uid') xs) =
   map_option (add_redeemed c uid') (find (\<lambda>r. sql_eq (user_id r) uid) xs)"
  by (rule find_map_same) simp

lemma redeemed_of_after_update:
  assumes "get_or_create_user s uid t = (s1, user)" "users s2 = map (add_redeemed c uid) (users s1)"
  shows "redeemed_of s2 uid = (if uid = None then 0 else redeemed_of s uid + c)"
    "earned_of s2 uid = earned_of s uid"
proof -
  have f: "find (\<lambda>r. sql_eq (user_id r) uid) (users s2) =
      (if uid = None then None else Some (add_redeemed c uid user))"
    by (simp add: assms(2) find_add_redeemed get_or_create_user_find [OF assms(1)])
  have m: "sql_eq (user_id user) uid" if "uid \<noteq> None"
    using get_or_create_user_cases [OF assms(1)] that by (auto simp: sql_eq_iff)
  have r: "monthly_coin_redeemed user = redeemed_of s uid"
    and e: "monthly_coin_earned user = earned_of s uid"
    by (rule get_or_create_user_counters [OF assms(1)])+
  have "find (\<lambda>r. sql_eq (user_id r) None) (users s) = None"
    by (simp add: find_None_iff)
  then have z: "earned_of s uid = 0" if "uid = None"
    using that by (simp add: earned_of_def)
  show "redeemed_of s2 uid = (if uid = None then 0 else redeemed_of s uid + c)"
  proof (cases "uid = None")
    case True
    then show ?thesis by (simp add: redeemed_of_def f)
  next
    case False
    with m have "sql_eq (user_id user) uid" by simp
    with False show ?thesis
      unfolding redeemed_of_def [of s2] f by (auto simp: add_redeemed_def r)
  qed
  show "earned_of s2 uid = earned_of s uid"
  proof (cases "uid = None")
    case True
    then show ?thesis using z unfolding earned_of_def [of s2] f by simp
  next
    case False
    with m have "sql_eq (user_id user) uid" by simp
    with False show ?thesis
      unfolding earned_of_def [of s2] f by (auto simp: add_redeemed_def e)
  qed
qed

subsection \<open>The monthly cap\<close>











subsection \<open>Exchange and the balance\<close>

lemma bal_inv_cong: "users s = users s' \<Longrightarrow> bal_inv u s = bal_inv u s'"
  by (simp add: bal_inv_def)

lemma get_or_create_user_bal_inv:
  assumes "bal_inv u s" "get_or_create_user s uid t = (s1, user)"
  shows "bal_inv u s1"
  using get_or_create_user_cases [OF assms(2)] assms(1)
  by (auto simp: bal_inv_def)

lemma bal_inv_add_earned:
  "bal_inv u s \<Longrightarrow> 0 \<le> c \<Longrightarrow> bal_inv u (s\<lparr>users := map (add_earned c uid) (users s)\<rparr>)"
  by (auto simp: bal_inv_def list_all_iff add_earned_def)

lemma bal_inv_add_redeemed_other:
  "bal_inv u s \<Longrightarrow> uid \<noteq> Some u \<Longrightarrow>
   bal_inv u (s\<lparr>users := map (add_redeemed c uid) (users s)\<rparr>)"
  by (auto simp: bal_inv_def list_all_iff add_redeemed_def sql_eq_iff)

lemma bal_inv_add_redeemed_checked:
  assumes "bal_inv u s"
    "\<And>r. r \<in> set (users s) \<Longrightarrow> sql_eq (user_id r) uid \<Longrightarrow> r = user"
    "c \<le> monthly_coin_earned user - monthly_coin_redeemed user"
  shows "bal_inv u (s\<lparr>users := map (add_redeemed c uid) (users s)\<rparr>)"
  using assms by (auto simp: bal_inv_def list_all_iff add_redeemed_def)

lemma coin_earn_bal_inv:
  assumes "bal_inv u s"
  shows "bal_inv u (fst (coin_earn s uid c t))"
proof -
  obtain s1 user where g: "get_or_create_user s uid t = (s1, user)"
    by (cases "get_or_create_user s uid t")
  show ?thesis
    using assms get_or_create_user_bal_inv [OF assms g]
    by (simp add: coin_earn_def g bal_inv_add_earned)
qed

lemma coin_redeem_bal_inv:
  assumes "bal_inv u s" "uid \<noteq> Some u"
  shows "bal_inv u (fst (coin_redeem s uid c t))"
proof -
  obtain s1 user where g: "get_or_create_user s uid t = (s1, user)"
    by (cases "get_or_create_user s uid t")
  show ?thesis
    unfolding coin_redeem_fst [OF g]
    using assms get_or_create_user_bal_inv [OF assms(1) g]
    by (simp add: bal_inv_add_redeemed_other)
qed

lemma coin_exchange_bal_inv:
  assumes "key_inv s" "bal_inv u s"
  shows "bal_inv u (fst (coin_exchange s uid usd t n l))"
proof (cases "(\<exists>e. py_int (float_mul_int usd COINS_PER_DOLLAR) = Inl e) \<or>
           float_le_int usd 0 \<or> float_gt_int usd 100")
  case True
  then have "fst (coin_exchange s uid usd t n l) = s"
    using coin_exchange_unchecked by blast
  then show ?thesis using assms by simp
next
  case False
  then obtain c where c: "py_int (float_mul_int usd COINS_PER_DOLLAR) = Inr c"
    and chk: "\<not> float_le_int usd 0" "\<not> float_gt_int usd 100"
    by (cases "py_int (float_mul_int usd COINS_PER_DOLLAR)") auto
  obtain s1 user where g: "get_or_create_user s uid t = (s1, user)"
    by (cases "get_or_create_user s uid t")
  note b1 = get_or_create_user_bal_inv [OF assms(2) g]
  have upd: "bal_inv u (s1\<lparr>users := map (add_redeemed c uid) (users s1)\<rparr>)"
    if "c \<le> monthly_coin_earned user - monthly_coin_redeemed user"
  proof (rule bal_inv_add_redeemed_checked [where user = user])
    show "bal_inv u s1" by (rule b1)
    show "r = user" if "r \<in> set (users s1)" "sql_eq (user_id r) uid" for r
      using that by (rule get_or_create_user_unique [OF assms(1) g])
  qed (use that in simp)
  let ?s2 = "s1\<lparr>users := map (add_redeemed c uid) (users s1),
                  pending_redemptions := pending_redemptions s1 @
                    [\<lparr>r_id = sqlite_sequence s1 + 1, r_user_id = uid, coins_redeemed = c,
                      usd_value = usd, requested_at = n, status = ''pending''\<rparr>],
                  sqlite_sequence := sqlite_sequence s1 + 1\<rparr>"
  have u: "users (log_redemption_csv ?s2 uid usd c l) =
           users (s1\<lparr>users := map (add_redeemed c uid) (users s1)\<rparr>)"
    by (simp add: log_redemption_csv_def)
  show ?thesis
    unfolding coin_exchange_checked [OF g c chk]
    using b1 upd bal_inv_cong [OF u] by simp
qed

lemma reset_monthly_bal_inv: "bal_inv u (fst (reset_monthly s t))"
  by (simp add: reset_monthly_def bal_inv_def list_all_iff)

lemma coin_status_bal_inv:
  assumes "bal_inv u s"
  shows "bal_inv u (fst (coin_status s uid t))"
proof -
  obtain s1 user where g: "get_or_create_user s uid t = (s1, user)"
    by (cases "get_or_create_user s uid t")
  show ?thesis
    unfolding coin_status_fst
    using assms get_or_create_user_bal_inv [OF assms g] by (simp add: g)
qed

lemma handle_bal_inv:
  assumes "key_inv s" "bal_inv u s" "\<not> redeems u q"
  shows "bal_inv u (fst (handle K f s q))"
proof (cases "route q \<noteq> Home \<and> api_key_header q \<noteq> Some K")
  case True
  then show ?thesis using assms by (simp add: handle_def)
next
  case False
  show ?thesis
  proof (cases "route q")
    case (Coin_redeem uid c)
    then have "uid \<noteq> Some u" using assms(3) by (simp add: redeems_def)
    from coin_redeem_bal_inv [OF assms(2) this] show ?thesis
      using False Coin_redeem by (simp add: handle_def)
  qed (use False assms coin_earn_bal_inv [OF assms(2)] coin_exchange_bal_inv [OF assms(1,2)]
        reset_monthly_bal_inv coin_status_bal_inv [OF assms(2)]
        bal_inv_cong [of "fst (mark_redeem_paid s i)" s for i]
        bal_inv_cong [of "fst (expire_old_redemptions s e)" s for e]
       in \<open>simp_all add: handle_def get_pending_redemptions_def export_csv_def\<close>)
qed

lemma run_bal_inv:
  "key_inv s \<Longrightarrow> cap_inv s \<Longrightarrow> bal_inv u s \<Longrightarrow> list_all (\<lambda>q. \<not> redeems u q) qs \<Longrightarrow>
   bal_inv u (run K f s qs)"
proof (induction qs arbitrary: s)
  case Nil
  then show ?case by simp
next
  case (Cons q qs)
  from Cons.prems have nq: "\<not> redeems u q" and rest: "list_all (\<lambda>q. \<not> redeems u q) qs"
    by simp_all
  from handle_inv [OF Cons.prems(1,2), of K f q]
    handle_bal_inv [OF Cons.prems(1,3) nq, of K f] rest Cons.IH
  show ?case by simp
qed

text \<open>
  C2. From the empty database, after any sequence of requests none of which is a
  Redeem naming the account \<open>u\<close> (so that only Exchange has ever increased its
  \<open>monthly_coin_redeemed\<close>), the account has
  \<open>monthly_coin_redeemed \<le> monthly_coin_earned\<close>.
\<close>

theorem exchange_keeps_redeemed_below_earned:
  assumes "list_all (\<lambda>q. \<not> redeems u q) qs"
  shows "list_all (\<lambda>r. user_id r = Some u \<longrightarrow> monthly_coin_redeemed r \<le> monthly_coin_earned r)
           (users (run K f init_db qs))"
proof -
  have "bal_inv u init_db" by (simp add: bal_inv_def init_db_def)
  from run_bal_inv [OF init_db_inv this assms, of K f] show ?thesis
    by (simp add: bal_inv_def)
qed

theorem exchange_keeps_redeemed_below_earned_witness:
  "list_all (\<lambda>q. \<not> redeems ''alice'' q) example_requests \<and>
   map (\<lambda>r. (user_id r, monthly_coin_redeemed r, monthly_coin_earned r))
     (users (run ''secret'' (\<lambda>x. []) init_db example_requests)) =
     [(Some ''alice'', 5000000, 10000000)] \<and>
   list_all (\<lambda>r. user_id r = Some ''alice'' \<longrightarrow> monthly_coin_redeemed r \<le> monthly_coin_earned r)
     (users (run ''secret'' (\<lambda>x. []) init_db example_requests))"
proof -
  have h: "list_all (\<lambda>q. \<not> redeems ''alice'' q) example_requests"
    by (simp add: example_requests_def redeems_def)
  from h exchange_keeps_redeemed_below_earned [OF h, of "''secret''" "\<lambda>x. []"]
  show ?thesis by (simp add: example_store_reached example_store_def)
qed

subsection \<open>Redeem\<close>





lemma round_half_even_down:
  assumes "of_int f \<le> x" "x < of_int f + 1 / 2"
  shows "round_half_even x = f"
proof -
  have "\<lfloor>x\<rfloor> = f" using assms by (intro floor_unique) simp_all
  then show ?thesis using assms by (simp add: round_half_even_def)
qed

lemma round_half_even_up:
  assumes "of_int f + 1 / 2 < x" "x < of_int f + 1"
  shows "round_half_even x = f + 1"
proof -
  have "\<lfloor>x\<rfloor> = f" using assms by (intro floor_unique) simp_all
  then show ?thesis using assms by (simp add: round_half_even_def)
qed





subsection \<open>Exchange\<close>

lemma py_int_exchange_finite:
  assumes "0 < a" "a \<le> 100"
  shows "\<exists>v. float_mul_int (Finite a) COINS_PER_DOLLAR = Finite v \<and> 0 \<le> v \<and>
             py_int (float_mul_int (Finite a) COINS_PER_DOLLAR) = Inr \<lfloor>v\<rfloor>"
proof -
  have "0 < a * 1000000" using assms(1) by simp
  moreover have "a * 1000000 \<le> 100 * 1000000" using assms(2) by simp
  then have "a * 1000000 \<le> 2 ^ 1000" by simp
  ultimately obtain v where "round_double (a * 1000000) = Finite v" "0 \<le> v"
    using round_double_finite by blast
  then show ?thesis
    by (simp add: float_mul_int_def COINS_PER_DOLLAR_def py_int_def)
qed

text \<open>
  C10. For an Exchange whose \<^verbatim>\<open>user_id\<close> is missing and whose amount is in (0, 100]:
  the request is not rejected as invalid; get-or-create adds an account with a NULL
  \<^verbatim>\<open>user_id\<close> and no coins to the store, and the answer is that of the balance check,
  the error for insufficient coins when the coins required are positive (and success
  when they are 0). \<^verbatim>\<open>coin_earn\<close> and \<^verbatim>\<open>coin_redeem\<close> answer a missing
  \<^verbatim>\<open>user_id\<close> with the error for an invalid request and leave the store as it is.
\<close>

theorem coin_exchange_missing_user_id:
  assumes "0 < a" "a \<le> 100"
  shows "\<exists>coins. py_int (float_mul_int (Finite a) COINS_PER_DOLLAR) = Inr coins \<and>
           users (fst (coin_exchange s None (Finite a) t n l)) =
             users s @ [\<lparr>user_id = None, monthly_coin_earned = 0, monthly_coin_redeemed = 0,
                         last_reset = t\<rparr>] \<and>
           snd (coin_exchange s None (Finite a) t n l) =
             (if 0 < coins then Inl Insufficient_coins else Inr (''$'' @ format_2f (Finite a))) \<and>
           coin_earn s None c t = (s, Inl Invalid_request) \<and>
           coin_redeem s None c t = (s, Inl Invalid_request)"
proof -
  from py_int_exchange_finite [OF assms] obtain v :: rat where
    v: "py_int (float_mul_int (Finite a) COINS_PER_DOLLAR) = Inr \<lfloor>v\<rfloor>" "0 \<le> v"
    by blast
  let ?row = "\<lparr>user_id = None, monthly_coin_earned = 0, monthly_coin_redeemed = 0,
                         last_reset = t\<rparr>"
  have g: "get_or_create_user s None t = (s\<lparr>users := users s @ [?row]\<rparr>, ?row)"
    by (simp add: get_or_create_user_def Let_def)
  have chk: "\<not> float_le_int (Finite a) 0" "\<not> float_gt_int (Finite a) 100"
    using assms by (simp_all add: float_le_int_def float_gt_int_def)
  have nn: "0 \<le> \<lfloor>v\<rfloor>" using v(2) by simp
  have m: "map (add_redeemed k None) rs = rs" for k rs
    by (induction rs) (simp_all add: add_redeemed_def)
  show ?thesis
    unfolding coin_exchange_checked [OF g v(1) chk]
    using nn
    by (intro exI [of _ "\<lfloor>v\<rfloor>"])
       (auto simp: v(1) coin_earn_def coin_redeem_def MAX_MONTHLY_COINS_def log_redemption_csv_def m
          add_redeemed_def)
qed

theorem coin_exchange_missing_user_id_witness:
  "py_int (float_mul_int (Finite 5) COINS_PER_DOLLAR) = Inr 5000000 \<and>
   map user_id (users (fst (coin_exchange example_store None (Finite 5) ''2024-01-02''
       ''2024-01-02 00:00:00'' ''2024-01-02 00:00:00''))) = [Some ''alice'', None] \<and>
   snd (coin_exchange example_store None (Finite 5) ''2024-01-02''
       ''2024-01-02 00:00:00'' ''2024-01-02 00:00:00'') = Inl Insufficient_coins \<and>
   coin_earn example_store None 5000000 ''2024-01-02'' = (example_store, Inl Invalid_request) \<and>
   coin_redeem example_store None 5000000 ''2024-01-02'' = (example_store, Inl Invalid_request)"
  using coin_exchange_missing_user_id [of 5 example_store "''2024-01-02''"
      "''2024-01-02 00:00:00''" "''2024-01-02 00:00:00''" 5000000] py_int_5_dollars
  by (auto simp: example_store_def)

lemma round_half_even_ge:
  assumes "of_int n \<le> x"
  shows "n \<le> round_half_even x"
proof -
  have "n \<le> \<lfloor>x\<rfloor>" using assms by (simp add: le_floor_iff)
  moreover have "\<lfloor>x\<rfloor> \<le> round_half_even x"
    unfolding round_half_even_def Let_def by simp
  ultimately show ?thesis by simp
qed

lemma round_double_overflow:
  assumes "2 powi 1024 \<le> q"
  shows "round_double q = PosInf"
proof -
  have q: "0 < q" using assms by (rule less_le_trans [rotated]) simp
  define e where "e = floor_log2 q"
  have e: "2 powi e \<le> q" "q < 2 powi (e + 1)"
    using floor_log2_bounds [OF q] by (simp_all add: e_def)
  have "(2::rat) powi 1024 < 2 powi (e + 1)" using assms e(2) by simp
  then have "1024 < e + 1"
    using power_int_increasing [of "e + 1" 1024 "2::rat"] by (cases "1024 < e + 1") simp_all
  then have e1024: "1024 \<le> e" by simp
  define p where "p = max (e - 52) (- 1074)"
  have p: "p = e - 52" using e1024 by (simp add: p_def)
  have pp: "(0::rat) < 2 powi p" by simp
  have split: "(2::rat) powi e = 2 powi 52 * 2 powi p"
    using power_int_add [of "2::rat" 52 p] by (simp add: p)
  have "(2::rat) powi 52 * 2 powi p \<le> q" using e(1) split by simp
  then have "(2::rat) powi 52 \<le> q / 2 powi p" using pp by (simp add: pos_le_divide_eq)
  then have "rat_of_int (2 ^ 52) \<le> q / 2 powi p" by simp
  then have "2 ^ 52 \<le> round_half_even (q / 2 powi p)" by (rule round_half_even_ge)
  then have "rat_of_int (2 ^ 52) \<le> of_int (round_half_even (q / 2 powi p))"
    by (simp only: of_int_le_iff)
  then have "rat_of_int (2 ^ 52) * 2 powi p \<le> of_int (round_half_even (q / 2 powi p)) * 2 powi p"
    using pp by (intro mult_right_mono) simp_all
  then have "(2::rat) powi e \<le> of_int (round_half_even (q / 2 powi p)) * 2 powi p"
    using split by simp
  moreover have "(2::rat) powi 1024 \<le> 2 powi e"
    using e1024 by (intro power_int_increasing) simp_all
  ultimately have "(2::rat) powi 1024 \<le> of_int (round_half_even (q / 2 powi p)) * 2 powi p"
    by (rule order_trans [rotated])
  then show ?thesis
    using q by (simp add: round_double_def Let_def e_def [symmetric] p_def [symmetric])
qed

lemma coin_exchange_overflow:
  assumes "2 powi 1024 \<le> a * 1000000"
  shows "coin_exchange s uid (Finite a) t n l = (s, Inl OverflowError)"
  using round_double_overflow [OF assms]
  by (simp add: coin_exchange_def float_mul_int_def COINS_PER_DOLLAR_def py_int_def)

lemma coin_exchange_infinite:
  "coin_exchange s uid PosInf t n l = (s, Inl OverflowError)"
  "coin_exchange s uid NegInf t n l = (s, Inl OverflowError)"
  by (simp_all add: coin_exchange_def float_mul_int_def COINS_PER_DOLLAR_def py_int_def)

lemma py_int_200_dollars: "py_int (float_mul_int (Finite 200) COINS_PER_DOLLAR) = Inr 200000000"
  using round_double_of_int [of 200000000]
  by (simp add: float_mul_int_def COINS_PER_DOLLAR_def py_int_def)

text \<open>
  C6. The claim: an Exchange whose amount is \<open>\<le> 0\<close> or \<open>> 100\<close> fails with the error for
  an invalid request. The code at the failing input: an amount of 200 is answered
  with that error, but an amount of infinity (the JSON number \<^verbatim>\<open>1e400\<close>) and the finite
  amount \<open>2 ^ 1023\<close> are both greater than 100 and are answered with an uncaught
  \<^verbatim>\<open>OverflowError\<close> (HTTP 500), because \<^verbatim>\<open>int(usd_requested * COINS_PER_DOLLAR)\<close> is
  computed at line 123, before the amount is checked at line 125. The store is left
  as it was in each case.
\<close>

theorem coin_exchange_overflow_before_check:
  "coin_exchange example_store (Some ''alice'') (Finite 200) ''2024-01-02''
       ''2024-01-02 00:00:00'' ''2024-01-02 00:00:00'' = (example_store, Inl Invalid_amount) \<and>
   float_gt_int PosInf 100 \<and>
   coin_exchange example_store (Some ''alice'') PosInf ''2024-01-02''
       ''2024-01-02 00:00:00'' ''2024-01-02 00:00:00'' = (example_store, Inl OverflowError) \<and>
   float_gt_int (Finite (2 ^ 1023)) 100 \<and>
   coin_exchange example_store (Some ''alice'') (Finite (2 ^ 1023)) ''2024-01-02''
       ''2024-01-02 00:00:00'' ''2024-01-02 00:00:00'' = (example_store, Inl OverflowError) \<and>
   http_status OverflowError = 500 \<and> http_status Invalid_amount = 400"
proof -
  have 1: "coin_exchange example_store (Some ''alice'') (Finite 200) ''2024-01-02''
       ''2024-01-02 00:00:00'' ''2024-01-02 00:00:00'' = (example_store, Inl Invalid_amount)"
    by (simp add: coin_exchange_def py_int_200_dollars float_gt_int_def)
  have 2: "coin_exchange example_store (Some ''alice'') (Finite (2 ^ 1023)) ''2024-01-02''
       ''2024-01-02 00:00:00'' ''2024-01-02 00:00:00'' = (example_store, Inl OverflowError)"
    by (rule coin_exchange_overflow) simp
  show ?thesis
    unfolding 1 2 coin_exchange_infinite by (simp add: float_gt_int_def)
qed

lemma round_double_2_pow_minus_21:
  "float_mul_int (Finite (1 / 2097152)) COINS_PER_DOLLAR = Finite (15625 / 32768)"
  using round_double_example by (simp add: float_mul_int_def COINS_PER_DOLLAR_def)

lemma format_2f_2_pow_minus_21: "format_2f (Finite (1 / 2097152)) = ''0.00''"
proof -
  have "round_half_even (25 / 524288) = 0"
    by (rule round_half_even_down) simp_all
  then show ?thesis
    by (simp add: format_2f_def str_nat_digit digit_char_def)
qed

text \<open>
  C8. The claim: every redemption that an Exchange inserts has \<open>coins_redeemed > 0\<close>.
  The code at the failing input: for a user who has no coins, an Exchange of
  \<open>1 / 2097152\<close> dollars (the JSON number \<^verbatim>\<open>4.76837158203125e-07\<close>) passes the
  amount check, needs \<open>int(0.476837158203125) = 0\<close> coins, passes the balance and
  cap checks, and inserts a pending redemption with \<open>coins_redeemed = 0\<close>.
  \<^verbatim>\<open>coin_earn\<close> and \<^verbatim>\<open>coin_redeem\<close> reject a request of 0 coins.
\<close>

theorem coin_exchange_records_zero_coins:
  "py_int (float_mul_int (Finite (1 / 2097152)) COINS_PER_DOLLAR) = Inr 0 \<and>
   snd (coin_exchange init_db (Some ''bob'') (Finite (1 / 2097152)) ''2024-01-02''
       ''2024-01-02 00:00:00'' ''2024-01-02 00:00:00'') = Inr ''$0.00'' \<and>
   pending_redemptions (fst (coin_exchange init_db (Some ''bob'') (Finite (1 / 2097152))
       ''2024-01-02'' ''2024-01-02 00:00:00'' ''2024-01-02 00:00:00'')) =
     [\<lparr>r_id = 1, r_user_id = Some ''bob'', coins_redeemed = 0,
       usd_value = Finite (1 / 2097152), requested_at = ''2024-01-02 00:00:00'',
       status = ''pending''\<rparr>] \<and>
   coin_redeem init_db (Some ''bob'') 0 ''2024-01-02'' = (init_db, Inl Invalid_request) \<and>
   coin_earn init_db (Some ''bob'') 0 ''2024-01-02'' = (init_db, Inl Invalid_request)"
proof -
  have "\<lfloor>15625 / 32768 :: rat\<rfloor> = 0" by (rule floor_unique) simp_all
  then have p: "py_int (float_mul_int (Finite (1 / 2097152)) COINS_PER_DOLLAR) = Inr 0"
    by (simp add: round_double_2_pow_minus_21 py_int_def)
  show ?thesis
    by (simp add: p coin_exchange_def get_or_create_user_def init_db_def Let_def
        float_le_int_def float_gt_int_def MAX_MONTHLY_COINS_def log_redemption_csv_def
        format_2f_2_pow_minus_21 coin_redeem_def coin_earn_def)
qed

lemma round_double_eqI:
  assumes "2 powi e \<le> q" "q < 2 powi (e + 1)" "- 1022 \<le> e"
    "round_half_even (q / 2 powi (e - 52)) = m"
    "of_int m * 2 powi (e - 52) < (2::rat) powi 1024"
  shows "round_double q = Finite (of_int m * 2 powi (e - 52))"
proof -
  have q: "0 < q" using assms(1) by (rule less_le_trans [rotated]) simp
  have e: "floor_log2 q = e" using assms(1,2) by (rule floor_log2_eqI)
  have p: "max (e - 52) (- 1074) = e - 52" using assms(3) by simp
  show ?thesis
    using q assms(5) by (simp add: round_double_def Let_def e p assms(4))
qed

lemma round_double_2_01:
  "round_double (201 / 100) = Finite (1131529406376837 / 562949953421312)"
proof -
  have r: "round_half_even ((201 / 100) / 2 powi (1 - 52)) = 4526117625507348"
    by (rule round_half_even_down) simp_all
  have "round_double (201 / 100) = Finite (of_int 4526117625507348 * 2 powi (1 - 52))"
    by (rule round_double_eqI [OF _ _ _ r]) simp_all
  then show ?thesis by simp
qed

lemma float_mul_int_2_01:
  "float_mul_int (Finite (1131529406376837 / 562949953421312)) COINS_PER_DOLLAR =
   Finite (8632884264959999 / 4294967296)"
proof -
  have r: "round_half_even ((1131529406376837 / 562949953421312 * 1000000) / 2 powi (20 - 52)) =
      8632884264959999"
    by (rule round_half_even_down) simp_all
  have "round_double (1131529406376837 / 562949953421312 * 1000000) =
      Finite (of_int 8632884264959999 * 2 powi (20 - 52))"
    by (rule round_double_eqI [OF _ _ _ r]) simp_all
  then show ?thesis by (simp add: float_mul_int_def COINS_PER_DOLLAR_def)
qed

lemma py_int_2_01:
  "py_int (float_mul_int (Finite (1131529406376837 / 562949953421312)) COINS_PER_DOLLAR) =
   Inr 2009999"
proof -
  have "\<lfloor>8632884264959999 / 4294967296 :: rat\<rfloor> = 2009999"
    by (rule floor_unique) simp_all
  then show ?thesis by (simp add: float_mul_int_2_01 py_int_def)
qed

lemma str_nat_2: "str_nat 2 = ''2''"
  by (simp add: str_nat_digit digit_char_def)

lemma format_2f_2_01: "format_2f (Finite (1131529406376837 / 562949953421312)) = ''2.01''"
proof -
  have "round_half_even (1131529406376837 / 562949953421312 * 100) = 200 + 1"
    by (rule round_half_even_up) simp_all
  then show ?thesis
    by (simp add: format_2f_def str_nat_2 digit_char_def)
qed

lemma round_double_0_3:
  "round_double (3 / 10) = Finite (5404319552844595 / 18014398509481984)"
proof -
  have r: "round_half_even ((3 / 10) / 2 powi (- 2 - 52)) = 5404319552844595"
    by (rule round_half_even_down) simp_all
  have "round_double (3 / 10) = Finite (of_int 5404319552844595 * 2 powi (- 2 - 52))"
    by (rule round_double_eqI [OF _ _ _ r]) simp_all
  then show ?thesis by simp
qed

lemma py_int_0_3:
  "py_int (float_mul_int (Finite (5404319552844595 / 18014398509481984)) COINS_PER_DOLLAR) =
   Inr 300000"
proof -
  have r: "round_half_even ((5404319552844595 / 18014398509481984 * 1000000) / 2 powi (18 - 52)) =
      5153960755199999 + 1"
    by (rule round_half_even_up) simp_all
  have "round_double (5404319552844595 / 18014398509481984 * 1000000) =
      Finite (of_int (5153960755199999 + 1) * 2 powi (18 - 52))"
    by (rule round_double_eqI [OF _ _ _ r]) simp_all
  then show ?thesis by (simp add: float_mul_int_def COINS_PER_DOLLAR_def py_int_def)
qed

lemma coin_exchange_records:
  assumes "coin_exchange s uid usd t n l = (s', Inr w)"
  shows "\<exists>v. float_mul_int usd COINS_PER_DOLLAR = Finite v \<and> 0 \<le> v \<and>
           pending_redemptions s' = pending_redemptions s @
             [\<lparr>r_id = sqlite_sequence s + 1, r_user_id = uid, coins_redeemed = \<lfloor>v\<rfloor>,
               usd_value = usd, requested_at = n, status = ''pending''\<rparr>] \<and>
           redeemed_of s' uid = (if uid = None then 0 else redeemed_of s uid + \<lfloor>v\<rfloor>)"
proof -
  obtain s1 user where g: "get_or_create_user s uid t = (s1, user)"
    by (cases "get_or_create_user s uid t")
  have chk: "\<not> float_le_int usd 0" "\<not> float_gt_int usd 100"
    using assms by (auto simp: coin_exchange_def split: sum.splits if_splits)
  have "\<exists>c. py_int (float_mul_int usd COINS_PER_DOLLAR) = Inr c"
    using assms by (cases "py_int (float_mul_int usd COINS_PER_DOLLAR)")
      (auto simp: coin_exchange_def)
  then obtain a where a: "usd = Finite a"
    by (cases usd) (auto simp: float_mul_int_def COINS_PER_DOLLAR_def py_int_def)
  have "0 < a" "a \<le> 100"
    using chk by (simp_all add: a float_le_int_def float_gt_int_def)
  from py_int_exchange_finite [OF this] obtain v :: rat where
    v: "float_mul_int usd COINS_PER_DOLLAR = Finite v" "0 \<le> v"
      "py_int (float_mul_int usd COINS_PER_DOLLAR) = Inr \<lfloor>v\<rfloor>"
    unfolding a by blast
  have same: "pending_redemptions s1 = pending_redemptions s" "sqlite_sequence s1 = sqlite_sequence s"
    using get_or_create_user_cases [OF g] by auto
  let ?s2 = "s1\<lparr>users := map (add_redeemed \<lfloor>v\<rfloor> uid) (users s1),
                  pending_redemptions := pending_redemptions s1 @
                    [\<lparr>r_id = sqlite_sequence s1 + 1, r_user_id = uid, coins_redeemed = \<lfloor>v\<rfloor>,
                      usd_value = usd, requested_at = n, status = ''pending''\<rparr>],
                  sqlite_sequence := sqlite_sequence s1 + 1\<rparr>"
  have s': "s' = log_redemption_csv ?s2 uid usd \<lfloor>v\<rfloor> l"
    using assms unfolding coin_exchange_checked [OF g v(3) chk]
    by (simp split: if_splits)
  have u: "users s' = map (add_redeemed \<lfloor>v\<rfloor> uid) (users s1)"
    by (simp add: s' log_redemption_csv_def)
  have "pending_redemptions s' = pending_redemptions s @
      [\<lparr>r_id = sqlite_sequence s + 1, r_user_id = uid, coins_redeemed = \<lfloor>v\<rfloor>,
        usd_value = usd, requested_at = n, status = ''pending''\<rparr>]"
    by (simp add: s' log_redemption_csv_def same)
  with v(1,2) redeemed_of_after_update(1) [OF g u] show ?thesis by blast
qed

text \<open>
  C5. The claim: the coins reserved and recorded by an Exchange are
  \<open>floor(usd_requested * COINS_PER_DOLLAR)\<close>. The code at the failing input: the amount
  2.01 is read as the float nearest to it; the float product with 1000000 is
  2009999.9999999998 and \<^verbatim>\<open>int\<close> cuts it to 2009999, so the account in the example
  store is charged 2009999 coins and the redemption recorded for \<open>$2.01\<close> has
  \<open>coins_redeemed = 2009999\<close>, where \<open>floor(2.01 * 1000000) = 2010000\<close>. Nor is the
  number the floor of the exact product of the float: for the amount 0.3 the float is
  below 0.3 and the floor of its exact product with 1000000 is 299999, while the code
  computes 300000.
\<close>

theorem coin_exchange_truncates_float_product:
  "round_double (201 / 100) = Finite (1131529406376837 / 562949953421312) \<and>
   \<lfloor>(201 / 100 :: rat) * of_int COINS_PER_DOLLAR\<rfloor> = 2010000 \<and>
   py_int (float_mul_int (round_double (201 / 100)) COINS_PER_DOLLAR) = Inr 2009999 \<and>
   snd (coin_exchange example_store (Some ''alice'') (round_double (201 / 100)) ''2024-01-02''
       ''2024-01-02 00:00:00'' ''2024-01-02 00:00:00'') = Inr ''$2.01'' \<and>
   map coins_redeemed (pending_redemptions (fst (coin_exchange example_store (Some ''alice'')
       (round_double (201 / 100)) ''2024-01-02'' ''2024-01-02 00:00:00''
       ''2024-01-02 00:00:00''))) = [5000000, 2009999] \<and>
   map monthly_coin_redeemed (users (fst (coin_exchange example_store (Some ''alice'')
       (round_double (201 / 100)) ''2024-01-02'' ''2024-01-02 00:00:00''
       ''2024-01-02 00:00:00''))) = [5000000 + 2009999] \<and>
   round_double (3 / 10) = Finite (5404319552844595 / 18014398509481984) \<and>
   \<lfloor>(5404319552844595 / 18014398509481984 :: rat) * of_int COINS_PER_DOLLAR\<rfloor> = 299999 \<and>
   py_int (float_mul_int (round_double (3 / 10)) COINS_PER_DOLLAR) = Inr 300000"
proof -
  have f1: "\<lfloor>(201 / 100 :: rat) * of_int COINS_PER_DOLLAR\<rfloor> = 2010000"
    by (simp add: COINS_PER_DOLLAR_def)
  have f2: "\<lfloor>(5404319552844595 / 18014398509481984 :: rat) * of_int COINS_PER_DOLLAR\<rfloor> = 299999"
    unfolding COINS_PER_DOLLAR_def by (rule floor_unique) simp_all
  have g: "get_or_create_user example_store (Some ''alice'') ''2024-01-02'' =
      (example_store, hd (users example_store))"
    by (simp add: get_or_create_user_def example_store_def)
  have chk: "\<not> float_le_int (Finite (1131529406376837 / 562949953421312)) 0"
    "\<not> float_gt_int (Finite (1131529406376837 / 562949953421312)) 100"
    by (simp_all add: float_le_int_def float_gt_int_def)
  show ?thesis
    unfolding round_double_2_01 round_double_0_3 py_int_2_01 py_int_0_3 f1 f2
      coin_exchange_checked [OF g py_int_2_01 chk]
    by (simp add: example_store_def example_redemption_def MAX_MONTHLY_COINS_def
        log_redemption_csv_def add_redeemed_def format_2f_2_01)
qed

subsection \<open>The CSV export\<close>

lemma comma_store_reached: "run ''secret'' f init_db comma_requests = comma_store"
  by (simp add: comma_requests_def handle_def answer_def coin_earn_def coin_exchange_def
      get_or_create_user_def init_db_def add_earned_def add_redeemed_def py_int_5_dollars
      float_le_int_def float_gt_int_def MAX_MONTHLY_COINS_def log_redemption_csv_def
      format_2f_5 comma_store_def Let_def)

lemma str_int_1: "str_int 1 = ''1''"
  by (simp add: str_int_def str_nat_digit digit_char_def)

lemma str_int_5000000: "str_int 5000000 = ''5000000''"
  by (simp add: str_int_def str_nat.simps digit_char_def)

lemma row_strs_comma_store:
  assumes "str_float (Finite 5) = ''5.0''"
  shows "map (row_strs str_float) (pending_redemptions comma_store) =
    [[''1'', ''a,b'', ''5000000'', ''5.0'', ''2024-01-01 00:00:00'', ''pending'']]"
  by (simp add: comma_store_def row_strs_def str_int_1 str_int_5000000 str_opt_def assms)

lemma row_strs_example_store:
  assumes "str_float (Finite 5) = ''5.0''"
  shows "map (row_strs str_float) (pending_redemptions example_store) =
    [[''1'', ''alice'', ''5000000'', ''5.0'', ''2024-01-01 00:00:00'', ''pending'']]"
  by (simp add: example_store_def example_redemption_def row_strs_def str_int_1
      str_int_5000000 str_opt_def assms)

lemma export_csv_rows:
  "snd (export_csv str_float s) =
     Inr (csv_header @ concat (map (\<lambda>fields. join '','' fields @ [CHR 0x0A])
                                (map (row_strs str_float) (pending_redemptions s))))"
  by (simp add: export_csv_def o_def)

text \<open>
  C7. The claim: splitting the export at newlines and commas gives back the rows of
  the store, also when a \<^verbatim>\<open>user_id\<close> contains a comma. The code at the failing input:
  the store holds one redemption, of the user \<^verbatim>\<open>a,b\<close>; \<^verbatim>\<open>export_csv\<close> writes its six
  fields joined by commas with no quoting (line 202), and the line splits into seven
  fields, so the row read back is not the row of the store. For the example store,
  whose user id has no comma, the same parser gives back the row. (\<open>str_float\<close> is
  \<^verbatim>\<open>str\<close> on floats, of which only \<^verbatim>\<open>str(5.0)\<close> is used here.)
\<close>

theorem export_csv_comma_breaks_round_trip:
  assumes "str_float (Finite 5) = ''5.0''"
  shows "map (row_strs str_float) (pending_redemptions comma_store) =
           [[''1'', ''a,b'', ''5000000'', ''5.0'', ''2024-01-01 00:00:00'', ''pending'']] \<and>
         snd (export_csv str_float comma_store) =
           Inr (csv_header @ ''1,a,b,5000000,5.0,2024-01-01 00:00:00,pending'' @ [CHR 0x0A]) \<and>
         parse_csv (csv_header @ ''1,a,b,5000000,5.0,2024-01-01 00:00:00,pending'' @ [CHR 0x0A]) =
           [[''1'', ''a'', ''b'', ''5000000'', ''5.0'', ''2024-01-01 00:00:00'', ''pending'']] \<and>
         snd (export_csv str_float example_store) =
           Inr (csv_header @ ''1,alice,5000000,5.0,2024-01-01 00:00:00,pending'' @ [CHR 0x0A]) \<and>
         parse_csv (csv_header @ ''1,alice,5000000,5.0,2024-01-01 00:00:00,pending'' @ [CHR 0x0A]) =
           map (row_strs str_float) (pending_redemptions example_store)"
proof -
  have 1: "parse_csv (csv_header @ ''1,a,b,5000000,5.0,2024-01-01 00:00:00,pending'' @ [CHR 0x0A]) =
           [[''1'', ''a'', ''b'', ''5000000'', ''5.0'', ''2024-01-01 00:00:00'', ''pending'']]"
    by (simp add: parse_csv_def split_on_def csv_header_def)
  have 2: "parse_csv (csv_header @ ''1,alice,5000000,5.0,2024-01-01 00:00:00,pending'' @ [CHR 0x0A]) =
           [[''1'', ''alice'', ''5000000'', ''5.0'', ''2024-01-01 00:00:00'', ''pending'']]"
    by (simp add: parse_csv_def split_on_def csv_header_def)
  have 3: "snd (export_csv str_float comma_store) =
           Inr (csv_header @ ''1,a,b,5000000,5.0,2024-01-01 00:00:00,pending'' @ [CHR 0x0A])"
    unfolding export_csv_rows row_strs_comma_store [of str_float, OF assms] by simp
  have 4: "snd (export_csv str_float example_store) =
           Inr (csv_header @ ''1,alice,5000000,5.0,2024-01-01 00:00:00,pending'' @ [CHR 0x0A])"
    unfolding export_csv_rows row_strs_example_store [of str_float, OF assms] by simp
  show ?thesis
    unfolding 1 2 3 4 row_strs_comma_store [of str_float, OF assms] row_strs_example_store [of str_float, OF assms]
    by simp
qed

theorem export_csv_comma_breaks_round_trip_witness:
  "run ''secret'' (\<lambda>x. ''5.0'') init_db comma_requests = comma_store \<and>
   map (row_strs (\<lambda>x. ''5.0'')) (pending_redemptions comma_store) =
     [[''1'', ''a,b'', ''5000000'', ''5.0'', ''2024-01-01 00:00:00'', ''pending'']] \<and>
   snd (export_csv (\<lambda>x. ''5.0'') comma_store) =
     Inr (csv_header @ ''1,a,b,5000000,5.0,2024-01-01 00:00:00,pending'' @ [CHR 0x0A]) \<and>
   parse_csv (csv_header @ ''1,a,b,5000000,5.0,2024-01-01 00:00:00,pending'' @ [CHR 0x0A]) =
     [[''1'', ''a'', ''b'', ''5000000'', ''5.0'', ''2024-01-01 00:00:00'', ''pending'']]"
  using export_csv_comma_breaks_round_trip [of "\<lambda>x. ''5.0''"]
  by (simp add: comma_store_reached)

end
